theory Spec2Isabelle
  imports Complex_Main "HOL-Library.Sublist"
begin

section \<open>The graph store (server.js)\<close>

text \<open>
  The SQLite tables \<^verbatim>\<open>nodes\<close> and \<^verbatim>\<open>relationships\<close> are lists of rows, in rowid order.
  Every column is TEXT; the \<^verbatim>\<open>properties\<close> column is read with a null/empty check by the
  code, so it is optional here.
\<close>

record node_row =
  n_id :: string
  n_graph_id :: string
  n_name :: string
  n_type :: string
  n_properties :: "string option"
  n_created_at :: string
  n_updated_at :: string

record rel_row =
  r_id :: string
  r_graph_id :: string
  r_source :: string
  r_target :: string
  r_type :: string
  r_properties :: "string option"
  r_created_at :: string

record database =
  nodes_table :: "node_row list"
  relationships_table :: "rel_row list"

text \<open>The two HTTP error answers of the route: 404 with its message, and 500 from the catch block.\<close>

datatype error = NotFound string | ServerError

text \<open>
  \<^verbatim>\<open>x.properties ? JSON.parse(x.properties) : {}\<close>. The library function \<^verbatim>\<open>JSON.parse\<close> is the
  parameter \<open>jp\<close>; it returns \<open>None\<close> where \<^verbatim>\<open>JSON.parse\<close> throws a SyntaxError. A null or empty
  column is falsy and gives the literal \<^verbatim>\<open>{}\<close>.
\<close>

datatype 'j properties = EmptyObject | Parsed 'j

definition parse_properties :: "(string \<Rightarrow> 'j option) \<Rightarrow> string option \<Rightarrow> error + 'j properties" where
  "parse_properties jp col =
     (case col of
        None \<Rightarrow> Inr EmptyObject
      | Some s \<Rightarrow>
          if s = [] then Inr EmptyObject
          else (case jp s of None \<Rightarrow> Inl ServerError | Some j \<Rightarrow> Inr (Parsed j)))"

text \<open>A row with its \<^verbatim>\<open>properties\<close> replaced by the parsed value: \<^verbatim>\<open>{ ...row, properties: ... }\<close>.\<close>

type_synonym 'j node_obj = "node_row \<times> 'j properties"
type_synonym 'j rel_obj = "rel_row \<times> 'j properties"

text \<open>\<^verbatim>\<open>SELECT * FROM nodes WHERE graph_id = ? AND name = ?\<close> with \<^verbatim>\<open>.get\<close>: the first matching row.\<close>

definition get_node :: "database \<Rightarrow> string \<Rightarrow> string \<Rightarrow> node_row option" where
  "get_node db graphId name =
     find (\<lambda>n. n_graph_id n = graphId \<and> n_name n = name) (nodes_table db)"

text \<open>\<^verbatim>\<open>SELECT * FROM relationships WHERE graph_id = ? AND source IN (...)\<close> with \<^verbatim>\<open>.all\<close>.\<close>

definition outRels :: "database \<Rightarrow> string \<Rightarrow> string list \<Rightarrow> rel_row list" where
  "outRels db graphId frontier =
     filter (\<lambda>r. r_graph_id r = graphId \<and> r_source r \<in> set frontier) (relationships_table db)"

definition inRels :: "database \<Rightarrow> string \<Rightarrow> string list \<Rightarrow> rel_row list" where
  "inRels db graphId frontier =
     filter (\<lambda>r. r_graph_id r = graphId \<and> r_target r \<in> set frontier) (relationships_table db)"


subsection \<open>The neighbour expansion of GET /api/graph/:id/node/:name\<close>

text \<open>
  \<^verbatim>\<open>Math.min(parseInt(req.query.depth) || 1, 3)\<close>. The argument is the value of \<^verbatim>\<open>parseInt\<close>:
  \<open>None\<close> is NaN (a missing or non-numeric parameter). NaN and 0 are falsy, so both give 1.
\<close>

definition depth_of :: "int option \<Rightarrow> int" where
  "depth_of q = min (case q of None \<Rightarrow> 1 | Some d \<Rightarrow> if d = 0 then 1 else d) 3"

text \<open>The variables of the traversal: \<^verbatim>\<open>visited\<close>, \<^verbatim>\<open>frontier\<close>, \<^verbatim>\<open>allNodes\<close>, \<^verbatim>\<open>allRels\<close>,
  and \<^verbatim>\<open>nextFrontier\<close> inside a round.\<close>

record 'j bfs =
  visited :: "string list"
  frontier :: "string list"
  nextFrontier :: "string list"
  allNodes :: "'j node_obj list"
  allRels :: "'j rel_obj list"

text \<open>The body of \<^verbatim>\<open>for (const name of [rel.source, rel.target])\<close>.\<close>

definition visit_name ::
  "(string \<Rightarrow> 'j option) \<Rightarrow> database \<Rightarrow> string \<Rightarrow> string \<Rightarrow> 'j bfs \<Rightarrow> error + 'j bfs" where
  "visit_name jp db graphId name s =
     (if name \<in> set (visited s) then Inr s
      else
        let s' = s\<lparr>visited := visited s @ [name], nextFrontier := nextFrontier s @ [name]\<rparr>
        in (case get_node db graphId name of
              None \<Rightarrow> Inr s'
            | Some neighbor \<Rightarrow>
                (case parse_properties jp (n_properties neighbor) of
                   Inl e \<Rightarrow> Inl e
                 | Inr p \<Rightarrow> Inr (s'\<lparr>allNodes := allNodes s' @ [(neighbor, p)]\<rparr>))))"

text \<open>The body of \<^verbatim>\<open>for (const rel of rels)\<close>.\<close>

definition visit_rel ::
  "(string \<Rightarrow> 'j option) \<Rightarrow> database \<Rightarrow> string \<Rightarrow> rel_row \<Rightarrow> 'j bfs \<Rightarrow> error + 'j bfs" where
  "visit_rel jp db graphId rel s =
     (case parse_properties jp (r_properties rel) of
        Inl e \<Rightarrow> Inl e
      | Inr p \<Rightarrow>
          (case visit_name jp db graphId (r_source rel) (s\<lparr>allRels := allRels s @ [(rel, p)]\<rparr>) of
             Inl e \<Rightarrow> Inl e
           | Inr s1 \<Rightarrow> visit_name jp db graphId (r_target rel) s1))"

fun scan_rels ::
  "(string \<Rightarrow> 'j option) \<Rightarrow> database \<Rightarrow> string \<Rightarrow> rel_row list \<Rightarrow> 'j bfs \<Rightarrow> error + 'j bfs" where
  "scan_rels jp db graphId [] s = Inr s"
| "scan_rels jp db graphId (rel # rels) s =
     (case visit_rel jp db graphId rel s of
        Inl e \<Rightarrow> Inl e
      | Inr s' \<Rightarrow> scan_rels jp db graphId rels s')"

text \<open>One round of the loop over \<^verbatim>\<open>d\<close>, after the test for an empty frontier.\<close>

definition expand_round ::
  "(string \<Rightarrow> 'j option) \<Rightarrow> database \<Rightarrow> string \<Rightarrow> 'j bfs \<Rightarrow> error + 'j bfs" where
  "expand_round jp db graphId s =
     (let rels = outRels db graphId (frontier s) @ inRels db graphId (frontier s)
      in (case scan_rels jp db graphId rels (s\<lparr>nextFrontier := []\<rparr>) of
            Inl e \<Rightarrow> Inl e
          | Inr s' \<Rightarrow> Inr (s'\<lparr>frontier := nextFrontier s'\<rparr>)))"

text \<open>\<^verbatim>\<open>for (let d = 0; d < depth; d++) { if (frontier.length === 0) break; ... }\<close>,
  by the number of rounds still allowed.\<close>

fun rounds ::
  "(string \<Rightarrow> 'j option) \<Rightarrow> database \<Rightarrow> string \<Rightarrow> nat \<Rightarrow> 'j bfs \<Rightarrow> error + 'j bfs" where
  "rounds jp db graphId 0 s = Inr s"
| "rounds jp db graphId (Suc k) s =
     (if frontier s = [] then Inr s
      else (case expand_round jp db graphId s of
              Inl e \<Rightarrow> Inl e
            | Inr s' \<Rightarrow> rounds jp db graphId k s'))"

text \<open>The deduplication filter: \<open>relSet\<close> holds the keys \<^verbatim>\<open>`${r.graph_id}-${r.id}`\<close> seen so far.\<close>

definition rel_key :: "'j rel_obj \<Rightarrow> string" where
  "rel_key r = r_graph_id (fst r) @ ''-'' @ r_id (fst r)"

fun uniqueRels :: "string list \<Rightarrow> 'j rel_obj list \<Rightarrow> 'j rel_obj list" where
  "uniqueRels relSet [] = []"
| "uniqueRels relSet (r # rs) =
     (if rel_key r \<in> set relSet then uniqueRels relSet rs
      else r # uniqueRels (relSet @ [rel_key r]) rs)"

text \<open>The JSON answer \<^verbatim>\<open>{ node: allNodes[0], nodes: allNodes, relationships: uniqueRels }\<close>;
  \<^verbatim>\<open>allNodes[0]\<close> of an empty array would be \<^verbatim>\<open>undefined\<close>.\<close>

record 'j response =
  node :: "'j node_obj option"
  nodes :: "'j node_obj list"
  relationships :: "'j rel_obj list"

text \<open>
  The handler up to the end of the loop. \<open>name\<close> is \<^verbatim>\<open>req.params.name\<close>, which the router has
  already percent-decoded; the handler decodes it once more with the library function
  \<^verbatim>\<open>decodeURIComponent\<close>, the parameter \<open>dec\<close>, which is \<open>None\<close> where that function throws a
  URIError (caught like every exception: 500). \<open>q\<close> is the value of \<^verbatim>\<open>parseInt\<close> on the query
  parameter. The store is a snapshot: its queries return rows and do not fail.
\<close>

definition traverse ::
  "(string \<Rightarrow> string option) \<Rightarrow> (string \<Rightarrow> 'j option) \<Rightarrow> database \<Rightarrow> string \<Rightarrow> string \<Rightarrow> int option
     \<Rightarrow> error + 'j bfs" where
  "traverse dec jp db graphId name q =
     (case dec name of
        None \<Rightarrow> Inl ServerError
      | Some nodeName \<Rightarrow>
          (let depth = depth_of q
           in (case get_node db graphId nodeName of
                 None \<Rightarrow> Inl (NotFound ''Node not found'')
               | Some n \<Rightarrow>
                   (case parse_properties jp (n_properties n) of
                      Inl e \<Rightarrow> Inl e
                    | Inr p \<Rightarrow>
                        rounds jp db graphId (nat depth)
                          \<lparr>visited = [nodeName], frontier = [nodeName], nextFrontier = [],
                           allNodes = [(n, p)], allRels = []\<rparr>))))"

definition expand ::
  "(string \<Rightarrow> string option) \<Rightarrow> (string \<Rightarrow> 'j option) \<Rightarrow> database \<Rightarrow> string \<Rightarrow> string \<Rightarrow> int option
     \<Rightarrow> error + 'j response" where
  "expand dec jp db graphId name q =
     (case traverse dec jp db graphId name q of
        Inl e \<Rightarrow> Inl e
      | Inr s \<Rightarrow>
          Inr \<lparr>node = (case allNodes s of [] \<Rightarrow> None | n # _ \<Rightarrow> Some n),
               nodes = allNodes s,
               relationships = uniqueRels [] (allRels s)\<rparr>)"

section \<open>The renderer (graph.js)\<close>

subsection \<open>Plain objects used as dictionaries\<close>

text \<open>
  \<^verbatim>\<open>connectionCount\<close> and \<^verbatim>\<open>nodeMap\<close> are created as \<^verbatim>\<open>{}\<close>, so a read \<^verbatim>\<open>obj[key]\<close> that finds no own
  property continues in \<^verbatim>\<open>Object.prototype\<close>. These are its property names.
\<close>

definition object_prototype_keys :: "string list" where
  "object_prototype_keys =
     [''constructor'', ''__defineGetter__'', ''__defineSetter__'', ''hasOwnProperty'',
      ''__lookupGetter__'', ''__lookupSetter__'', ''isPrototypeOf'', ''propertyIsEnumerable'',
      ''toString'', ''valueOf'', ''__proto__'', ''toLocaleString'']"

text \<open>
  What \<^verbatim>\<open>nodeMap[key]\<close> can be when it is not \<^verbatim>\<open>undefined\<close>: one of the objects of \<^verbatim>\<open>this.nodes\<close>,
  given by its position in that array, or the member of \<^verbatim>\<open>Object.prototype\<close> inherited under
  the key (a function, or \<^verbatim>\<open>Object.prototype\<close> itself for \<^verbatim>\<open>__proto__\<close>). Both are truthy.
\<close>

datatype ref = NodeRef nat | Inherited string

definition nodeMap_get :: "(string \<rightharpoonup> nat) \<Rightarrow> string \<Rightarrow> ref option" where
  "nodeMap_get nodeMap key =
     (case nodeMap key of
        Some i \<Rightarrow> Some (NodeRef i)
      | None \<Rightarrow> if key \<in> set object_prototype_keys then Some (Inherited key) else None)"

text \<open>
  A value read from \<^verbatim>\<open>connectionCount\<close>: a number, or something that is not a number, namely an
  inherited member or the string that \<^verbatim>\<open>+ 1\<close> makes of one. All of the latter are truthy.
\<close>

datatype count = Num nat | NonNumber

definition count_get :: "(string \<rightharpoonup> count) \<Rightarrow> string \<Rightarrow> count option" where
  "count_get connectionCount key =
     (case connectionCount key of
        Some c \<Rightarrow> Some c
      | None \<Rightarrow> if key \<in> set object_prototype_keys then Some NonNumber else None)"

text \<open>Assigning a primitive under \<^verbatim>\<open>__proto__\<close> runs the inherited setter, which ignores it.\<close>

definition count_set :: "(string \<rightharpoonup> count) \<Rightarrow> string \<Rightarrow> count \<Rightarrow> (string \<rightharpoonup> count)" where
  "count_set connectionCount key c =
     (if key = ''__proto__'' then connectionCount else connectionCount(key \<mapsto> c))"

text \<open>\<^verbatim>\<open>connectionCount[key] = (connectionCount[key] || 0) + 1\<close>.\<close>

definition increment :: "(string \<rightharpoonup> count) \<Rightarrow> string \<Rightarrow> (string \<rightharpoonup> count)" where
  "increment connectionCount key =
     count_set connectionCount key
       (case count_get connectionCount key of
          None \<Rightarrow> Num 1
        | Some (Num k) \<Rightarrow> Num (k + 1)
        | Some NonNumber \<Rightarrow> NonNumber)"

subsection \<open>The data of a rendered view\<close>

text \<open>
  A node and a relationship of the payload of GET /api/graph/:id, whose fields are the TEXT
  columns of the rows. \<open>None\<close> is JSON \<^verbatim>\<open>null\<close> in the fields the code guards with \<^verbatim>\<open>||\<close>; on a
  string \<^verbatim>\<open>String(n.id)\<close> is the identity. The fields \<^verbatim>\<open>properties\<close>, \<^verbatim>\<open>created_at\<close> and
  \<^verbatim>\<open>updated_at\<close> are copied through and read by none of the functions below; they are left out.
\<close>

record raw_node =
  raw_id :: string
  raw_name :: "string option"
  raw_type :: "string option"

record raw_rel =
  raw_source :: string
  raw_target :: string
  raw_rel_type :: "string option"

record payload =
  p_nodes :: "raw_node list option"
  p_relationships :: "raw_rel list option"

text \<open>
  An object of \<^verbatim>\<open>this.nodes\<close>. \<^verbatim>\<open>connections\<close> is \<open>None\<close> until render assigns it; \<open>g_pos\<close> is
  the pair \<^verbatim>\<open>(x, y)\<close> that the simulation writes (finite numbers, taken as reals), \<open>None\<close> while
  \<^verbatim>\<open>x\<close> and \<^verbatim>\<open>y\<close> are unset.
\<close>

record gnode =
  g_id :: string
  g_name :: string
  g_type :: string
  g_connections :: "count option"
  g_pos :: "(real \<times> real) option"

text \<open>An object of \<^verbatim>\<open>this.links\<close>; \<^verbatim>\<open>source\<close> and \<^verbatim>\<open>target\<close> are references.\<close>

record link =
  l_source :: ref
  l_target :: ref
  l_type :: string

text \<open>
  \<^verbatim>\<open>ref.name\<close>: the name of a node; the \<^verbatim>\<open>name\<close> of an inherited function (the constructor is
  \<^verbatim>\<open>Object\<close>); \<^verbatim>\<open>undefined\<close> for \<^verbatim>\<open>Object.prototype\<close>. A position outside the array has no name.
\<close>

definition ref_name :: "gnode list \<Rightarrow> ref \<Rightarrow> string option" where
  "ref_name ns r =
     (case r of
        NodeRef i \<Rightarrow> if i < length ns then Some (g_name (ns ! i)) else None
      | Inherited key \<Rightarrow>
          if key = ''constructor'' then Some ''Object''
          else if key = ''__proto__'' then None
          else Some key)"

text \<open>A value used as a property key: \<^verbatim>\<open>undefined\<close> becomes the string \<^verbatim>\<open>"undefined"\<close>.\<close>

definition property_key :: "string option \<Rightarrow> string" where
  "property_key v = (case v of None \<Rightarrow> ''undefined'' | Some s \<Rightarrow> s)"

text \<open>The class flags that the renderer toggles with \<^verbatim>\<open>classed\<close>. The i-th element of a
  selection is bound to the i-th entry of \<^verbatim>\<open>this.nodes\<close> or \<^verbatim>\<open>this.links\<close> (the data join of render).
  Labels and lines only ever get \<^verbatim>\<open>faded\<close>.\<close>

record circle =
  highlighted :: bool
  faded :: bool

record elements =
  nodeElements :: "circle list"
  nodeLabels :: "bool list"
  linkElements :: "bool list"
  linkLabels :: "bool list"

text \<open>What render passes to the d3 force simulation.\<close>

record simulation =
  sim_chargeStrength :: int
  sim_linkDistance :: int
  sim_alphaDecay :: real
  sim_initial_ticks :: nat

text \<open>The fields of \<^verbatim>\<open>GraphRenderer\<close>. \<open>this_svg\<close> and \<open>this_minimapCtx\<close> say whether the field is
  non-null; \<open>this_elements\<close> is \<open>None\<close> while the four selections are null.\<close>

record renderer =
  this_svg :: bool
  this_minimapCtx :: bool
  this_width :: real
  this_height :: real
  this_nodes :: "gnode list"
  this_links :: "link list"
  this_elements :: "elements option"
  this_simulation :: "simulation option"
  searchMatches :: "string list"
  isSearchActive :: bool

subsection \<open>render\<close>

text \<open>The object built for a payload node: \<^verbatim>\<open>name: n.name || String(n.id)\<close>,
  \<^verbatim>\<open>type: n.type || 'Unknown'\<close>.\<close>

definition make_node :: "raw_node \<Rightarrow> gnode" where
  "make_node n =
     \<lparr>g_id = raw_id n,
      g_name = (case raw_name n of None \<Rightarrow> raw_id n | Some s \<Rightarrow> if s = [] then raw_id n else s),
      g_type = (case raw_type n of None \<Rightarrow> ''Unknown'' | Some t \<Rightarrow> if t = [] then ''Unknown'' else t),
      g_connections = None,
      g_pos = None\<rparr>"

text \<open>
  The callback of \<^verbatim>\<open>graphData.nodes.map\<close>, over the array built so far and the two dictionaries.
  \<^verbatim>\<open>nodeMap[node.name] = node\<close> is modelled as an own property for every name. For a node named
  \<^verbatim>\<open>__proto__\<close> the assignment replaces the prototype of \<^verbatim>\<open>nodeMap\<close> instead; reads of that key
  still give the node, and the node's own field names become readable keys too (see
  \<open>reads_node_field\<close> below).
\<close>

fun process_nodes ::
  "raw_node list \<Rightarrow> gnode list \<Rightarrow> (string \<rightharpoonup> count) \<Rightarrow> (string \<rightharpoonup> nat)
     \<Rightarrow> gnode list \<times> (string \<rightharpoonup> count) \<times> (string \<rightharpoonup> nat)" where
  "process_nodes [] ns connectionCount nodeMap = (ns, connectionCount, nodeMap)"
| "process_nodes (n # rest) ns connectionCount nodeMap =
     (let node = make_node n
      in process_nodes rest (ns @ [node])
           (count_set connectionCount (g_name node) (Num 0))
           (nodeMap(g_name node \<mapsto> length ns)))"

text \<open>The loop \<^verbatim>\<open>for (const rel of graphData.relationships)\<close> with its guard \<^verbatim>\<open>if (src && tgt)\<close>.\<close>

fun process_links ::
  "gnode list \<Rightarrow> (string \<rightharpoonup> nat) \<Rightarrow> raw_rel list \<Rightarrow> link list \<Rightarrow> (string \<rightharpoonup> count)
     \<Rightarrow> link list \<times> (string \<rightharpoonup> count)" where
  "process_links ns nodeMap [] ls connectionCount = (ls, connectionCount)"
| "process_links ns nodeMap (rel # rels) ls connectionCount =
     (case nodeMap_get nodeMap (raw_source rel) of
        None \<Rightarrow> process_links ns nodeMap rels ls connectionCount
      | Some src \<Rightarrow>
          (case nodeMap_get nodeMap (raw_target rel) of
             None \<Rightarrow> process_links ns nodeMap rels ls connectionCount
           | Some tgt \<Rightarrow>
               process_links ns nodeMap rels
                 (ls @ [\<lparr>l_source = src, l_target = tgt,
                         l_type = (case raw_rel_type rel of
                                     None \<Rightarrow> ''RELATES_TO''
                                   | Some t \<Rightarrow> if t = [] then ''RELATES_TO'' else t)\<rparr>])
                 (increment
                    (increment connectionCount (property_key (ref_name ns src)))
                    (property_key (ref_name ns tgt)))))"

text \<open>\<^verbatim>\<open>node.connections = connectionCount[node.name] || 0\<close>.\<close>

definition set_connections :: "(string \<rightharpoonup> count) \<Rightarrow> gnode \<Rightarrow> gnode" where
  "set_connections connectionCount n =
     n\<lparr>g_connections :=
          Some (case count_get connectionCount (g_name n) of None \<Rightarrow> Num 0 | Some c \<Rightarrow> c)\<rparr>"

text \<open>The parameters of the force simulation, by the number of nodes.\<close>

definition chargeStrength :: "nat \<Rightarrow> int" where
  "chargeStrength n = (if n > 200 then - 400 else if n > 100 then - 600 else - 800)"

definition linkDistance :: "nat \<Rightarrow> int" where
  "linkDistance n = (if n > 200 then 160 else if n > 100 then 220 else 280)"

definition alphaDecay :: "nat \<Rightarrow> real" where
  "alphaDecay n = (if n > 200 then 5 / 100 else 2 / 100)"

definition initial_ticks :: "nat \<Rightarrow> nat" where
  "initial_ticks n = (if n > 200 then 80 else 0)"

text \<open>
  Reading \<^verbatim>\<open>nodeMap[key]\<close> after a node named \<^verbatim>\<open>__proto__\<close> was stored: that store replaced the
  prototype of \<^verbatim>\<open>nodeMap\<close> by the node object, so a key that is no own property and is one of the
  node's own field names reads that field of the node (its id, its name, its type, its
  properties, its dates). What such a read gives is not described here; \<open>reads_node_field\<close> says
  that the loop over the relationships makes one.
\<close>

definition node_fields :: "string list" where
  "node_fields = [''id'', ''name'', ''type'', ''properties'', ''created_at'', ''updated_at'']"

definition reads_node_field :: "(string \<rightharpoonup> nat) \<Rightarrow> raw_rel list \<Rightarrow> bool" where
  "reads_node_field nodeMap rels =
     (nodeMap ''__proto__'' \<noteq> None
      \<and> list_ex (\<lambda>rel. (raw_source rel \<in> set node_fields \<and> nodeMap (raw_source rel) = None)
                       \<or> (raw_target rel \<in> set node_fields \<and> nodeMap (raw_target rel) = None))
                 rels)"

text \<open>
  \<^verbatim>\<open>simulation.force('link', d3.forceLink(this.links)...)\<close> initialises the link force, which
  replaces every link end whose \<^verbatim>\<open>typeof\<close> is not \<^verbatim>\<open>"object"\<close> by the node of that id and throws
  \<^verbatim>\<open>Error("node not found: ...")\<close> when there is none. A node object and \<^verbatim>\<open>Object.prototype\<close> are
  objects; the other inherited members are functions. The handlers of the renderer take
  \<^verbatim>\<open>(event, d)\<close>, the signature of d3 from version 6 on, where the link force keeps the nodes in
  a \<^verbatim>\<open>Map\<close> under their ids: the ids are the names, which are strings, so a function finds no
  node.
\<close>

datatype exception = TypeError | Error

definition is_function :: "ref \<Rightarrow> bool" where
  "is_function x = (case x of NodeRef i \<Rightarrow> False | Inherited key \<Rightarrow> key \<noteq> ''__proto__'')"

definition forceLink_throws :: "link list \<Rightarrow> bool" where
  "forceLink_throws ls = list_ex (\<lambda>l. is_function (l_source l) \<or> is_function (l_target l)) ls"

text \<open>
  How a call of render ends: it returns, leaving the renderer in the given state; or an
  exception leaves it, with the renderer in the given state; or it made a read that
  \<open>reads_node_field\<close> describes, and the model says nothing about it.
\<close>

datatype rendering = Returns renderer | Throws exception renderer | Not_modelled

text \<open>
  render, up to the values it hands to d3: the node and link arrays, the connection counts,
  the fresh selections and the simulation parameters. The four selections are assigned before
  the simulation is built, so when the link force throws, \<^verbatim>\<open>this.simulation\<close> keeps its old value.
  The radius scale, the drawing attributes, the positions that the simulation writes and the
  deferred \<^verbatim>\<open>zoomToFit\<close> are not part of the model.
\<close>

definition render :: "renderer \<Rightarrow> payload option \<Rightarrow> rendering" where
  "render r graphData =
     (if \<not> this_svg r then Returns r
      else
        (case graphData of
           None \<Rightarrow> Returns r
         | Some gd \<Rightarrow>
             (case p_nodes gd of
                None \<Rightarrow> Returns r
              | Some raw \<Rightarrow>
                  (case process_nodes raw [] Map.empty Map.empty of
                     (ns, connectionCount, nodeMap) \<Rightarrow>
                       if reads_node_field nodeMap
                            (case p_relationships gd of None \<Rightarrow> [] | Some rels \<Rightarrow> rels)
                       then Not_modelled
                       else
                         (case (case p_relationships gd of
                                  None \<Rightarrow> ([], connectionCount)
                                | Some rels \<Rightarrow> process_links ns nodeMap rels [] connectionCount) of
                            (ls, connectionCount') \<Rightarrow>
                              let v = r\<lparr>this_nodes := map (set_connections connectionCount') ns,
                                        this_links := ls,
                                        this_elements :=
                                          Some \<lparr>nodeElements =
                                                  replicate (length ns)
                                                    \<lparr>highlighted = False, faded = False\<rparr>,
                                                nodeLabels = replicate (length ns) False,
                                                linkElements = replicate (length ls) False,
                                                linkLabels = replicate (length ls) False\<rparr>\<rparr>
                              in if forceLink_throws ls then Throws Error v
                                 else
                                   Returns
                                     (v\<lparr>this_simulation :=
                                           Some \<lparr>sim_chargeStrength = chargeStrength (length ns),
                                                 sim_linkDistance = linkDistance (length ns),
                                                 sim_alphaDecay = alphaDecay (length ns),
                                                 sim_initial_ticks = initial_ticks (length ns)\<rparr>\<rparr>))))))"

subsection \<open>updateMinimap and zoomToFit\<close>

text \<open>The loop that finds the bounds. \<open>None\<close> stands for the initial
  \<^verbatim>\<open>(Infinity, Infinity, -Infinity, -Infinity)\<close>, which the first positioned node replaces.\<close>

fun find_bounds ::
  "gnode list \<Rightarrow> (real \<times> real \<times> real \<times> real) option \<Rightarrow> (real \<times> real \<times> real \<times> real) option" where
  "find_bounds [] b = b"
| "find_bounds (n # ns) b =
     (case g_pos n of
        None \<Rightarrow> find_bounds ns b
      | Some (x, y) \<Rightarrow>
          find_bounds ns
            (Some (case b of
                     None \<Rightarrow> (x, y, x, y)
                   | Some (minX, minY, maxX, maxY) \<Rightarrow>
                       (min minX x, min minY y, max maxX x, max maxY y))))"

text \<open>\<^verbatim>\<open>ref.x\<close> and \<^verbatim>\<open>ref.y\<close>: an inherited member has neither.\<close>

definition ref_pos :: "gnode list \<Rightarrow> ref \<Rightarrow> (real \<times> real) option" where
  "ref_pos ns r =
     (case r of
        NodeRef i \<Rightarrow> if i < length ns then g_pos (ns ! i) else None
      | Inherited key \<Rightarrow> None)"

text \<open>What is drawn on the 160 by 120 canvas: the line segments and the centres of the dots.\<close>

record drawing =
  drawn_lines :: "((real \<times> real) \<times> (real \<times> real)) list"
  drawn_nodes :: "(real \<times> real) list"

text \<open>\<^verbatim>\<open>maxX - minX || 1\<close>.\<close>

definition range_or_1 :: "real \<Rightarrow> real \<Rightarrow> real" where
  "range_or_1 hi lo = (if hi - lo = 0 then 1 else hi - lo)"

definition updateMinimap :: "renderer \<Rightarrow> drawing option" where
  "updateMinimap r =
     (if \<not> this_minimapCtx r \<or> this_nodes r = [] then None
      else
        (case find_bounds (this_nodes r) None of
           None \<Rightarrow> Some \<lparr>drawn_lines = [], drawn_nodes = []\<rparr>
         | Some (minX, minY, maxX, maxY) \<Rightarrow>
             let cw = 160; ch = 120;
                 rangeX = range_or_1 maxX minX;
                 rangeY = range_or_1 maxY minY;
                 pad = 10;
                 scaleX = (cw - pad * 2) / rangeX;
                 scaleY = (ch - pad * 2) / rangeY;
                 scale = min scaleX scaleY;
                 offsetX = (cw - rangeX * scale) / 2;
                 offsetY = (ch - rangeY * scale) / 2;
                 project = (\<lambda>(x, y). ((x - minX) * scale + offsetX, (y - minY) * scale + offsetY))
             in Some \<lparr>drawn_lines =
                        concat (map (\<lambda>l. case (ref_pos (this_nodes r) (l_source l),
                                                 ref_pos (this_nodes r) (l_target l)) of
                                            (Some p, Some q) \<Rightarrow> [(project p, project q)]
                                          | _ \<Rightarrow> [])
                                    (this_links r)),
                      drawn_nodes =
                        concat (map (\<lambda>n. case g_pos n of None \<Rightarrow> [] | Some p \<Rightarrow> [project p])
                                    (this_nodes r))\<rparr>))"

text \<open>The bounding box read from the DOM, and the zoom transform that zoomToFit applies.\<close>

record bbox =
  bbox_x :: real
  bbox_y :: real
  bbox_width :: real
  bbox_height :: real

record transform =
  t_x :: real
  t_y :: real
  t_scale :: real

definition zoomToFit :: "renderer \<Rightarrow> bbox \<Rightarrow> transform option" where
  "zoomToFit r bounds =
     (if this_nodes r = [] then None
      else if bbox_width bounds = 0 \<or> bbox_height bounds = 0 then None
      else
        let padding = 60;
            scale = min (min (this_width r / (bbox_width bounds + padding * 2))
                             (this_height r / (bbox_height bounds + padding * 2))) 2
        in Some \<lparr>t_x = this_width r / 2 - (bbox_x bounds + bbox_width bounds / 2) * scale,
                 t_y = this_height r / 2 - (bbox_y bounds + bbox_height bounds / 2) * scale,
                 t_scale = scale\<rparr>)"

subsection \<open>highlightNodes\<close>

text \<open>
  \<^verbatim>\<open>String.prototype.toLowerCase\<close> is the parameter \<open>lc\<close>. Calling it on \<^verbatim>\<open>undefined\<close> (the
  \<^verbatim>\<open>name\<close> of a link end that has none) throws a TypeError.
\<close>

text \<open>The callback for a line or a link label:
  \<^verbatim>\<open>!has(d.source.name.toLowerCase()) && !has(d.target.name.toLowerCase())\<close>; the right operand
  is not evaluated when the left one is false.\<close>

definition link_faded ::
  "(string \<Rightarrow> string) \<Rightarrow> string list \<Rightarrow> gnode list \<Rightarrow> link \<Rightarrow> exception + bool" where
  "link_faded lc matches ns l =
     (case ref_name ns (l_source l) of
        None \<Rightarrow> Inl TypeError
      | Some s \<Rightarrow>
          if lc s \<in> set matches then Inr False
          else (case ref_name ns (l_target l) of
                  None \<Rightarrow> Inl TypeError
                | Some t \<Rightarrow> Inr (lc t \<notin> set matches)))"

text \<open>\<^verbatim>\<open>selection.classed('faded', callback)\<close> over the lines or the link labels.\<close>

fun classed_faded_links ::
  "(string \<Rightarrow> string) \<Rightarrow> string list \<Rightarrow> gnode list \<Rightarrow> link list \<Rightarrow> bool list
     \<Rightarrow> exception + bool list" where
  "classed_faded_links lc matches ns (l # ls) (e # es) =
     (case link_faded lc matches ns l of
        Inl x \<Rightarrow> Inl x
      | Inr b \<Rightarrow>
          (case classed_faded_links lc matches ns ls es of
             Inl x \<Rightarrow> Inl x
           | Inr bs \<Rightarrow> Inr (b # bs)))"
| "classed_faded_links lc matches ns ls es = Inr []"

text \<open>
  highlightNodes. \<open>Inl\<close> is the exception leaving the function; the partly restyled view it
  leaves behind is not described.
\<close>

definition highlightNodes ::
  "(string \<Rightarrow> string) \<Rightarrow> string list \<Rightarrow> renderer \<Rightarrow> exception + renderer" where
  "highlightNodes lc names r =
     (let r1 = r\<lparr>searchMatches := map lc names, isSearchActive := (length names > 0)\<rparr>
      in (case this_elements r1 of
            None \<Rightarrow> Inr r1
          | Some els \<Rightarrow>
              if \<not> isSearchActive r1 then
                Inr (r1\<lparr>this_elements :=
                          Some \<lparr>nodeElements =
                                  map (\<lambda>c. c\<lparr>highlighted := False, faded := False\<rparr>) (nodeElements els),
                                nodeLabels = map (\<lambda>c. False) (nodeLabels els),
                                linkElements = map (\<lambda>c. False) (linkElements els),
                                linkLabels = map (\<lambda>c. False) (linkLabels els)\<rparr>\<rparr>)
              else
                let has = (\<lambda>n. lc (g_name n) \<in> set (searchMatches r1));
                    circles = map (\<lambda>(n, c). c\<lparr>highlighted := has n, faded := \<not> has n\<rparr>)
                                  (zip (this_nodes r1) (nodeElements els));
                    labels = map (\<lambda>(n, c). \<not> has n) (zip (this_nodes r1) (nodeLabels els))
                in (case classed_faded_links lc (searchMatches r1) (this_nodes r1) (this_links r1)
                           (linkElements els) of
                      Inl x \<Rightarrow> Inl x
                    | Inr lines \<Rightarrow>
                        (case classed_faded_links lc (searchMatches r1) (this_nodes r1) (this_links r1)
                                (linkLabels els) of
                           Inl x \<Rightarrow> Inl x
                         | Inr lineLabels \<Rightarrow>
                             Inr (r1\<lparr>this_elements :=
                                       Some \<lparr>nodeElements = circles, nodeLabels = labels,
                                             linkElements = lines, linkLabels = lineLabels\<rparr>\<rparr>)))))"

text \<open>
  The name of a link end is in the match set, both in lower case; a link end without a name
  is in no match set. This is the reading of "an endpoint matches" used in the statements about
  highlightNodes below.
\<close>

definition end_matches :: "(string \<Rightarrow> string) \<Rightarrow> string list \<Rightarrow> gnode list \<Rightarrow> ref \<Rightarrow> bool" where
  "end_matches lc names ns r =
     (case ref_name ns r of None \<Rightarrow> False | Some a \<Rightarrow> lc a \<in> lc ` set names)"

text \<open>
  The number of ends of the links \<open>ls\<close> that count under the key \<open>k\<close>: the sources whose name
  is \<open>k\<close> plus the targets whose name is \<open>k\<close>, a loop counting on both sides.
\<close>

definition ends_named :: "gnode list \<Rightarrow> link list \<Rightarrow> string \<Rightarrow> nat" where
  "ends_named ns ls k =
     length (filter (\<lambda>l. property_key (ref_name ns (l_source l)) = k) ls)
     + length (filter (\<lambda>l. property_key (ref_name ns (l_target l)) = k) ls)"

section \<open>Concrete inputs\<close>

text \<open>
  The stores and payloads on which the model is run below. Every \<^verbatim>\<open>properties\<close> column holds the
  text \<^verbatim>\<open>{}\<close>, so a parser that accepts exactly that text answers as \<^verbatim>\<open>JSON.parse\<close> does on them.
\<close>

definition parse_braces :: "string \<Rightarrow> unit option" where
  "parse_braces s = (if s = ''{}'' then Some () else None)"

text \<open>
  \<^verbatim>\<open>decodeURIComponent\<close> on text whose escapes are all below 128: an escape \<^verbatim>\<open>%XX\<close> becomes the
  character with that code, and a \<^verbatim>\<open>%\<close> that is not followed by two hexadecimal digits is a
  URIError. (Escapes from 128 on, which stand for parts of a multi-byte character, do not occur
  in the inputs below.)
\<close>

definition hex_digit :: "char \<Rightarrow> nat option" where
  "hex_digit c =
     map_of (zip ''0123456789abcdefABCDEF''
               [0, 1, 2, 3, 4, 5, 6, 7, 8, 9, 10, 11, 12, 13, 14, 15, 10, 11, 12, 13, 14, 15]) c"

fun decodeURIComponent_ascii :: "string \<Rightarrow> string option" where
  "decodeURIComponent_ascii [] = Some []"
| "decodeURIComponent_ascii (c # cs) =
     (if c = CHR ''%'' then
        (case cs of
           h1 # h2 # rest \<Rightarrow>
             (case (hex_digit h1, hex_digit h2) of
                (Some a, Some b) \<Rightarrow>
                  if 16 * a + b < 128
                  then map_option ((#) (char_of (16 * a + b))) (decodeURIComponent_ascii rest)
                  else None
              | _ \<Rightarrow> None)
         | _ \<Rightarrow> None)
      else map_option ((#) c) (decodeURIComponent_ascii cs))"

definition node_named :: "string \<Rightarrow> node_row" where
  "node_named name =
     \<lparr>n_id = ''n-'' @ name, n_graph_id = ''g'', n_name = name, n_type = ''Concept'',
      n_properties = Some ''{}'', n_created_at = ''2024-01-01'', n_updated_at = ''2024-01-01''\<rparr>"

definition edge :: "string \<Rightarrow> string \<Rightarrow> rel_row" where
  "edge a b =
     \<lparr>r_id = a @ ''>'' @ b, r_graph_id = ''g'', r_source = a, r_target = b, r_type = ''RELATES_TO'',
      r_properties = Some ''{}'', r_created_at = ''2024-01-01''\<rparr>"

definition parsed :: "'a \<Rightarrow> 'a \<times> unit properties" where
  "parsed row = (row, Parsed ())"

text \<open>The diamond A\<rightarrow>B, A\<rightarrow>C, B\<rightarrow>D, C\<rightarrow>D.\<close>

definition diamond :: database where
  "diamond =
     \<lparr>nodes_table = [node_named ''A'', node_named ''B'', node_named ''C'', node_named ''D''],
      relationships_table = [edge ''A'' ''B'', edge ''A'' ''C'', edge ''B'' ''D'', edge ''C'' ''D'']\<rparr>"

text \<open>The variables of the traversal of the diamond from A after two rounds.\<close>

definition diamond_round2 :: "unit bfs" where
  "diamond_round2 =
     \<lparr>visited = [''A'', ''B'', ''C'', ''D''], frontier = [''D''], nextFrontier = [''D''],
      allNodes = [parsed (node_named ''A''), parsed (node_named ''B''), parsed (node_named ''C''),
                  parsed (node_named ''D'')],
      allRels = [parsed (edge ''A'' ''B''), parsed (edge ''A'' ''C''), parsed (edge ''B'' ''D''),
                 parsed (edge ''C'' ''D''), parsed (edge ''A'' ''B''), parsed (edge ''A'' ''C'')]\<rparr>"

text \<open>The answers of the expansion from A in the diamond, with one round and with two.\<close>

definition diamond_depth1 :: "unit response" where
  "diamond_depth1 =
     \<lparr>node = Some (parsed (node_named ''A'')),
      nodes = [parsed (node_named ''A''), parsed (node_named ''B''), parsed (node_named ''C'')],
      relationships = [parsed (edge ''A'' ''B''), parsed (edge ''A'' ''C'')]\<rparr>"

definition diamond_depth2 :: "unit response" where
  "diamond_depth2 =
     \<lparr>node = Some (parsed (node_named ''A'')),
      nodes = [parsed (node_named ''A''), parsed (node_named ''B''), parsed (node_named ''C''),
               parsed (node_named ''D'')],
      relationships = [parsed (edge ''A'' ''B''), parsed (edge ''A'' ''C''),
                       parsed (edge ''B'' ''D''), parsed (edge ''C'' ''D'')]\<rparr>"

text \<open>The triangle A\<rightarrow>B, A\<rightarrow>C, B\<rightarrow>C, the variables of its traversal from A after two rounds,
  and the answer. In the second round B and C are both in the frontier, so B\<rightarrow>C is collected
  as an outgoing edge of B and as an incoming edge of C.\<close>

definition triangle :: database where
  "triangle =
     \<lparr>nodes_table = [node_named ''A'', node_named ''B'', node_named ''C''],
      relationships_table = [edge ''A'' ''B'', edge ''A'' ''C'', edge ''B'' ''C'']\<rparr>"

definition triangle_round2 :: "unit bfs" where
  "triangle_round2 =
     \<lparr>visited = [''A'', ''B'', ''C''], frontier = [], nextFrontier = [],
      allNodes = [parsed (node_named ''A''), parsed (node_named ''B''), parsed (node_named ''C'')],
      allRels = [parsed (edge ''A'' ''B''), parsed (edge ''A'' ''C''), parsed (edge ''B'' ''C''),
                 parsed (edge ''A'' ''B''), parsed (edge ''A'' ''C''), parsed (edge ''B'' ''C'')]\<rparr>"

definition triangle_answer :: "unit response" where
  "triangle_answer =
     \<lparr>node = Some (parsed (node_named ''A'')),
      nodes = [parsed (node_named ''A''), parsed (node_named ''B''), parsed (node_named ''C'')],
      relationships = [parsed (edge ''A'' ''B''), parsed (edge ''A'' ''C''), parsed (edge ''B'' ''C'')]\<rparr>"





text \<open>The renderer after \<^verbatim>\<open>init\<close>, before the first render.\<close>

definition initial :: renderer where
  "initial =
     \<lparr>this_svg = True, this_minimapCtx = True, this_width = 800, this_height = 600,
      this_nodes = [], this_links = [], this_elements = None, this_simulation = None,
      searchMatches = [], isSearchActive = False\<rparr>"

definition payload_node :: "string \<Rightarrow> raw_node" where
  "payload_node name = \<lparr>raw_id = ''n-'' @ name, raw_name = Some name, raw_type = Some ''Concept''\<rparr>"

definition payload_rel :: "string \<Rightarrow> string \<Rightarrow> raw_rel" where
  "payload_rel a b = \<lparr>raw_source = a, raw_target = b, raw_rel_type = Some ''RELATES_TO''\<rparr>"

text \<open>A node A and a relationship into it whose source \<^verbatim>\<open>__proto__\<close> names no node.\<close>

definition proto_payload :: payload where
  "proto_payload =
     \<lparr>p_nodes = Some [payload_node ''A''],
      p_relationships = Some [payload_rel ''__proto__'' ''A'']\<rparr>"

text \<open>The same relationship, with a second node whose name is the text \<^verbatim>\<open>undefined\<close>.\<close>

definition undefined_payload :: payload where
  "undefined_payload =
     \<lparr>p_nodes = Some [payload_node ''undefined'', payload_node ''A''],
      p_relationships = Some [payload_rel ''__proto__'' ''A'']\<rparr>"

text \<open>A single node A and no relationships.\<close>

definition single_payload :: payload where
  "single_payload = \<lparr>p_nodes = Some [payload_node ''A''], p_relationships = None\<rparr>"

text \<open>\<^verbatim>\<open>toLowerCase\<close> on ASCII text.\<close>

definition toLowerCase_ascii :: "string \<Rightarrow> string" where
  "toLowerCase_ascii s =
     map (\<lambda>c. case map_of (zip ''ABCDEFGHIJKLMNOPQRSTUVWXYZ'' ''abcdefghijklmnopqrstuvwxyz'') c of
                 None \<Rightarrow> c
               | Some d \<Rightarrow> d) s"

text \<open>The search scenario: two strategies and a belief, with a link between the strategies,
  one from a strategy to the belief, and a loop on the belief.\<close>

definition strategy_payload :: payload where
  "strategy_payload =
     \<lparr>p_nodes = Some [payload_node ''Strategy1'', payload_node ''Strategy2'', payload_node ''Belief1''],
      p_relationships = Some [payload_rel ''Strategy1'' ''Strategy2'',
                              payload_rel ''Strategy1'' ''Belief1'',
                              payload_rel ''Belief1'' ''Belief1'']\<rparr>"

definition strategy_elements :: elements where
  "strategy_elements =
     \<lparr>nodeElements = replicate 3 \<lparr>highlighted = False, faded = False\<rparr>,
      nodeLabels = replicate 3 False,
      linkElements = replicate 3 False,
      linkLabels = replicate 3 False\<rparr>"

text \<open>The parameters of the simulation for at most 100 nodes.\<close>

definition small_simulation :: simulation where
  "small_simulation =
     \<lparr>sim_chargeStrength = - 800, sim_linkDistance = 280, sim_alphaDecay = 2 / 100,
      sim_initial_ticks = 0\<rparr>"

definition view_node :: "string \<Rightarrow> nat \<Rightarrow> gnode" where
  "view_node name c =
     \<lparr>g_id = ''n-'' @ name, g_name = name, g_type = ''Concept'', g_connections = Some (Num c),
      g_pos = None\<rparr>"

definition view_link :: "ref \<Rightarrow> ref \<Rightarrow> link" where
  "view_link a b = \<lparr>l_source = a, l_target = b, l_type = ''RELATES_TO''\<rparr>"

text \<open>The view that render makes of it from the initial renderer.\<close>

definition strategy_view :: renderer where
  "strategy_view =
     initial\<lparr>this_nodes := [view_node ''Strategy1'' 2, view_node ''Strategy2'' 1,
                             view_node ''Belief1'' 3],
             this_links := [view_link (NodeRef 0) (NodeRef 1), view_link (NodeRef 0) (NodeRef 2),
                            view_link (NodeRef 2) (NodeRef 2)],
             this_elements := Some strategy_elements,
             this_simulation := Some small_simulation\<rparr>"

text \<open>The view of the single node A.\<close>

definition single_view :: renderer where
  "single_view =
     initial\<lparr>this_nodes := [view_node ''A'' 0], this_links := [],
             this_elements :=
               Some \<lparr>nodeElements = [\<lparr>highlighted = False, faded = False\<rparr>], nodeLabels = [False],
                     linkElements = [], linkLabels = []\<rparr>,
             this_simulation := Some small_simulation\<rparr>"

text \<open>The views of the two payloads with the relationship from \<^verbatim>\<open>__proto__\<close>.\<close>

definition proto_view :: renderer where
  "proto_view =
     initial\<lparr>this_nodes := [view_node ''A'' 1],
             this_links := [view_link (Inherited ''__proto__'') (NodeRef 0)],
             this_elements :=
               Some \<lparr>nodeElements = [\<lparr>highlighted = False, faded = False\<rparr>], nodeLabels = [False],
                     linkElements = [False], linkLabels = [False]\<rparr>,
             this_simulation := Some small_simulation\<rparr>"

definition undefined_view :: renderer where
  "undefined_view =
     initial\<lparr>this_nodes := [view_node ''undefined'' 1, view_node ''A'' 1],
             this_links := [view_link (Inherited ''__proto__'') (NodeRef 1)],
             this_elements :=
               Some \<lparr>nodeElements = replicate 2 \<lparr>highlighted = False, faded = False\<rparr>,
                     nodeLabels = replicate 2 False,
                     linkElements = [False], linkLabels = [False]\<rparr>,
             this_simulation := Some small_simulation\<rparr>"





section \<open>Properties of the expansion\<close>

lemma get_node_Some:
  "get_node db g name = Some row \<Longrightarrow>
     row \<in> set (nodes_table db) \<and> n_graph_id row = g \<and> n_name row = name"
  by (auto simp: get_node_def find_Some_iff)

lemma get_node_None:
  "get_node db g name = None \<longleftrightarrow>
     (\<forall>row\<in>set (nodes_table db). \<not> (n_graph_id row = g \<and> n_name row = name))"
  by (auto simp: get_node_def find_None_iff)

lemma visit_name_Inr:
  assumes "visit_name jp db g name s = Inr s'"
  shows "allRels s' = allRels s" and "frontier s' = frontier s"
    and "prefix (allNodes s) (allNodes s')"
    and "\<forall>x\<in>set (allNodes s'). x \<in> set (allNodes s) \<or> get_node db g (n_name (fst x)) \<noteq> None"
proof -
  have "allRels s' = allRels s \<and> frontier s' = frontier s \<and> prefix (allNodes s) (allNodes s')
        \<and> (\<forall>x\<in>set (allNodes s'). x \<in> set (allNodes s) \<or> get_node db g (n_name (fst x)) \<noteq> None)"
  proof (cases "name \<in> set (visited s)")
    case True
    with assms have "s' = s" by (simp add: visit_name_def)
    then show ?thesis by simp
  next
    case False
    show ?thesis
    proof (cases "get_node db g name")
      case None
      with False assms
      have "s' = s\<lparr>visited := visited s @ [name], nextFrontier := nextFrontier s @ [name]\<rparr>"
        by (simp add: visit_name_def Let_def)
      then show ?thesis by simp
    next
      case (Some nb)
      show ?thesis
      proof (cases "parse_properties jp (n_properties nb)")
        case (Inl e)
        with False Some assms show ?thesis by (simp add: visit_name_def Let_def)
      next
        case (Inr p)
        with False Some assms
        have "s' = s\<lparr>visited := visited s @ [name], nextFrontier := nextFrontier s @ [name],
                      allNodes := allNodes s @ [(nb, p)]\<rparr>"
          by (simp add: visit_name_def Let_def)
        moreover from get_node_Some[OF Some] Some have "get_node db g (n_name nb) \<noteq> None" by simp
        ultimately show ?thesis by simp
      qed
    qed
  qed
  then show "allRels s' = allRels s" and "frontier s' = frontier s"
    and "prefix (allNodes s) (allNodes s')"
    and "\<forall>x\<in>set (allNodes s'). x \<in> set (allNodes s) \<or> get_node db g (n_name (fst x)) \<noteq> None"
    by simp_all
qed

lemma visit_rel_Inr:
  assumes "visit_rel jp db g rel s = Inr s'"
  shows "\<exists>p. allRels s' = allRels s @ [(rel, p)]" and "frontier s' = frontier s"
    and "prefix (allNodes s) (allNodes s')"
    and "\<forall>x\<in>set (allNodes s'). x \<in> set (allNodes s) \<or> get_node db g (n_name (fst x)) \<noteq> None"
proof -
  from assms obtain p where p: "parse_properties jp (r_properties rel) = Inr p"
    by (cases "parse_properties jp (r_properties rel)") (simp_all add: visit_rel_def)
  let ?s0 = "s\<lparr>allRels := allRels s @ [(rel, p)]\<rparr>"
  from assms p obtain s1 where s1: "visit_name jp db g (r_source rel) ?s0 = Inr s1"
    and s': "visit_name jp db g (r_target rel) s1 = Inr s'"
    by (cases "visit_name jp db g (r_source rel) ?s0") (simp_all add: visit_rel_def)
  note a = visit_name_Inr[OF s1] and b = visit_name_Inr[OF s']
  from a(1) b(1) show "\<exists>p. allRels s' = allRels s @ [(rel, p)]" by simp
  from a(2) b(2) show "frontier s' = frontier s" by simp
  from a(3) have "prefix (allNodes s) (allNodes s1)" by simp
  then show "prefix (allNodes s) (allNodes s')" using b(3) by (rule prefix_order.trans)
  show "\<forall>x\<in>set (allNodes s'). x \<in> set (allNodes s) \<or> get_node db g (n_name (fst x)) \<noteq> None"
  proof
    fix x assume "x \<in> set (allNodes s')"
    with b(4) have "x \<in> set (allNodes s1) \<or> get_node db g (n_name (fst x)) \<noteq> None" by blast
    with a(4) show "x \<in> set (allNodes s) \<or> get_node db g (n_name (fst x)) \<noteq> None" by auto
  qed
qed

lemma scan_rels_Inr:
  "scan_rels jp db g rels s = Inr s' \<Longrightarrow>
     (\<exists>ps. allRels s' = allRels s @ ps \<and> map fst ps = rels)
     \<and> frontier s' = frontier s
     \<and> prefix (allNodes s) (allNodes s')
     \<and> (\<forall>x\<in>set (allNodes s'). x \<in> set (allNodes s) \<or> get_node db g (n_name (fst x)) \<noteq> None)"
proof (induction rels arbitrary: s)
  case Nil
  then show ?case by simp
next
  case (Cons rel rels)
  from Cons.prems obtain s1 where s1: "visit_rel jp db g rel s = Inr s1"
    and r: "scan_rels jp db g rels s1 = Inr s'"
    by (cases "visit_rel jp db g rel s") simp_all
  note a = visit_rel_Inr[OF s1]
  note b = Cons.IH[OF r]
  note b1 = b[THEN conjunct1]
  note b2 = b[THEN conjunct2, THEN conjunct1]
  note b3 = b[THEN conjunct2, THEN conjunct2, THEN conjunct1]
  note b4 = b[THEN conjunct2, THEN conjunct2, THEN conjunct2]
  from a(1) obtain p where p: "allRels s1 = allRels s @ [(rel, p)]" by blast
  from b1 obtain ps where ps: "allRels s' = allRels s1 @ ps" "map fst ps = rels" by blast
  from p ps have "allRels s' = allRels s @ ((rel, p) # ps) \<and> map fst ((rel, p) # ps) = rel # rels"
    by simp
  then have 1: "\<exists>ps. allRels s' = allRels s @ ps \<and> map fst ps = rel # rels" by (rule exI)
  from a(2) b2 have 2: "frontier s' = frontier s" by simp
  from a(3) b3 have 3: "prefix (allNodes s) (allNodes s')" by (rule prefix_order.trans)
  have 4: "\<forall>x\<in>set (allNodes s'). x \<in> set (allNodes s) \<or> get_node db g (n_name (fst x)) \<noteq> None"
  proof
    fix x assume "x \<in> set (allNodes s')"
    with b4 have "x \<in> set (allNodes s1) \<or> get_node db g (n_name (fst x)) \<noteq> None" by blast
    with a(4) show "x \<in> set (allNodes s) \<or> get_node db g (n_name (fst x)) \<noteq> None" by blast
  qed
  from 1 2 3 4 show ?case by (intro conjI)
qed

lemma expand_round_Inr:
  assumes "expand_round jp db g s = Inr s'"
  shows "\<exists>ps. allRels s' = allRels s @ ps
              \<and> map fst ps = outRels db g (frontier s) @ inRels db g (frontier s)"
    and "prefix (allNodes s) (allNodes s')"
    and "\<forall>x\<in>set (allNodes s'). x \<in> set (allNodes s) \<or> get_node db g (n_name (fst x)) \<noteq> None"
proof -
  let ?rels = "outRels db g (frontier s) @ inRels db g (frontier s)"
  let ?s0 = "s\<lparr>nextFrontier := []\<rparr>"
  from assms obtain s1 where s1: "scan_rels jp db g ?rels ?s0 = Inr s1"
    and s': "s' = s1\<lparr>frontier := nextFrontier s1\<rparr>"
    by (cases "scan_rels jp db g ?rels ?s0") (auto simp: expand_round_def Let_def)
  note c = scan_rels_Inr[OF s1]
  from c[THEN conjunct1] s'
  show "\<exists>ps. allRels s' = allRels s @ ps \<and> map fst ps = ?rels" by simp
  from c[THEN conjunct2, THEN conjunct2, THEN conjunct1] s'
  show "prefix (allNodes s) (allNodes s')" by simp
  from c[THEN conjunct2, THEN conjunct2, THEN conjunct2] s'
  show "\<forall>x\<in>set (allNodes s'). x \<in> set (allNodes s) \<or> get_node db g (n_name (fst x)) \<noteq> None"
    by simp
qed

lemma rounds_Inr:
  "rounds jp db g k s = Inr t \<Longrightarrow>
     prefix (allNodes s) (allNodes t) \<and> prefix (allRels s) (allRels t)
     \<and> (\<forall>x\<in>set (allNodes t). x \<in> set (allNodes s) \<or> get_node db g (n_name (fst x)) \<noteq> None)
     \<and> (\<forall>y\<in>set (allRels t). y \<in> set (allRels s)
            \<or> (fst y \<in> set (relationships_table db) \<and> r_graph_id (fst y) = g))"
proof (induction k arbitrary: s)
  case 0
  then show ?case by simp
next
  case (Suc k)
  show ?case
  proof (cases "frontier s = []")
    case True
    with Suc.prems show ?thesis by simp
  next
    case False
    with Suc.prems obtain s1 where s1: "expand_round jp db g s = Inr s1"
      and t: "rounds jp db g k s1 = Inr t"
      by (cases "expand_round jp db g s") simp_all
    note a = expand_round_Inr[OF s1]
    note b = Suc.IH[OF t]
    note b1 = b[THEN conjunct1]
    note b2 = b[THEN conjunct2, THEN conjunct1]
    note b3 = b[THEN conjunct2, THEN conjunct2, THEN conjunct1]
    note b4 = b[THEN conjunct2, THEN conjunct2, THEN conjunct2]
    from a(1) obtain ps where ps: "allRels s1 = allRels s @ ps"
      "map fst ps = outRels db g (frontier s) @ inRels db g (frontier s)" by blast
    have new: "fst y \<in> set (relationships_table db) \<and> r_graph_id (fst y) = g" if "y \<in> set ps" for y
    proof -
      from that have "fst y \<in> set (map fst ps)" by simp
      with ps(2) show ?thesis by (auto simp: outRels_def inRels_def)
    qed
    from a(2) b1 have 1: "prefix (allNodes s) (allNodes t)" by (rule prefix_order.trans)
    from b2 ps(1) have "prefix (allRels s @ ps) (allRels t)" by simp
    then have 2: "prefix (allRels s) (allRels t)" by (rule append_prefixD)
    have 3: "\<forall>x\<in>set (allNodes t). x \<in> set (allNodes s) \<or> get_node db g (n_name (fst x)) \<noteq> None"
    proof
      fix x assume "x \<in> set (allNodes t)"
      with b3 have "x \<in> set (allNodes s1) \<or> get_node db g (n_name (fst x)) \<noteq> None" by blast
      with a(3) show "x \<in> set (allNodes s) \<or> get_node db g (n_name (fst x)) \<noteq> None" by blast
    qed
    have 4: "\<forall>y\<in>set (allRels t). y \<in> set (allRels s)
               \<or> (fst y \<in> set (relationships_table db) \<and> r_graph_id (fst y) = g)"
    proof
      fix y assume "y \<in> set (allRels t)"
      with b4 have "y \<in> set (allRels s1)
                    \<or> (fst y \<in> set (relationships_table db) \<and> r_graph_id (fst y) = g)" by blast
      with ps(1) new[of y] show "y \<in> set (allRels s)
               \<or> (fst y \<in> set (relationships_table db) \<and> r_graph_id (fst y) = g)" by auto
    qed
    from 1 2 3 4 show ?thesis by (intro conjI)
  qed
qed

lemma rounds_Suc_Inr:
  "rounds jp db g (Suc k) s = Inr t \<Longrightarrow>
     \<exists>u. rounds jp db g k s = Inr u \<and> prefix (allNodes u) (allNodes t)"
proof (induction k arbitrary: s)
  case 0
  from rounds_Inr[OF 0] show ?case by simp
next
  case (Suc k)
  show ?case
  proof (cases "frontier s = []")
    case True
    with Suc.prems show ?thesis by simp
  next
    case False
    with Suc.prems obtain s1 where s1: "expand_round jp db g s = Inr s1"
      and t: "rounds jp db g (Suc k) s1 = Inr t"
      by (cases "expand_round jp db g s") simp_all
    from Suc.IH[OF t] obtain u where "rounds jp db g k s1 = Inr u" "prefix (allNodes u) (allNodes t)"
      by blast
    with False s1 show ?thesis by simp
  qed
qed

lemma rounds_le_Inr:
  "j \<le> k \<Longrightarrow> rounds jp db g k s = Inr t \<Longrightarrow>
     \<exists>u. rounds jp db g j s = Inr u \<and> prefix (allNodes u) (allNodes t)"
proof (induction k arbitrary: t)
  case 0
  then show ?case by simp
next
  case (Suc k)
  show ?case
  proof (cases "j = Suc k")
    case True
    with Suc.prems show ?thesis by auto
  next
    case False
    with Suc.prems have jk: "j \<le> k" by simp
    from rounds_Suc_Inr[OF Suc.prems(2)] obtain u
      where u: "rounds jp db g k s = Inr u" "prefix (allNodes u) (allNodes t)" by blast
    from Suc.IH[OF jk u(1)] obtain v
      where "rounds jp db g j s = Inr v" "prefix (allNodes v) (allNodes u)" by blast
    with u(2) show ?thesis using prefix_order.trans by blast
  qed
qed

lemma depth_of_mono: "d1 < d2 \<Longrightarrow> nat (depth_of (Some d1)) \<le> nat (depth_of (Some d2))"
  by (auto simp: depth_of_def)








text \<open>What a successful traversal started from: the decoded name, the row of the start node
  and its parsed properties.\<close>

lemma traverse_Inr:
  assumes "traverse dec jp db g name q = Inr s"
  obtains n row p where "dec name = Some n" and "get_node db g n = Some row"
    and "parse_properties jp (n_properties row) = Inr p"
    and "rounds jp db g (nat (depth_of q))
           \<lparr>visited = [n], frontier = [n], nextFrontier = [], allNodes = [(row, p)], allRels = []\<rparr>
         = Inr s"
proof (cases "dec name")
  case None
  with assms show ?thesis by (simp add: traverse_def)
next
  case (Some n)
  note n = Some
  show ?thesis
  proof (cases "get_node db g n")
    case None
    with n assms show ?thesis by (simp add: traverse_def)
  next
    case (Some row)
    show ?thesis
    proof (cases "parse_properties jp (n_properties row)")
      case (Inl e)
      with n Some assms show ?thesis by (simp add: traverse_def)
    next
      case (Inr p)
      with n Some assms that[of n row p] show ?thesis by (simp add: traverse_def)
    qed
  qed
qed


lemma expand_Inr:
  "expand dec jp db g name q = Inr r \<longleftrightarrow>
     (\<exists>s. traverse dec jp db g name q = Inr s
          \<and> r = \<lparr>node = (case allNodes s of [] \<Rightarrow> None | x # _ \<Rightarrow> Some x), nodes = allNodes s,
                 relationships = uniqueRels [] (allRels s)\<rparr>)"
  by (cases "traverse dec jp db g name q") (auto simp: expand_def)

subsection \<open>The expansion answers on a store whose properties parse\<close>

lemma visit_name_returns:
  assumes "\<forall>row\<in>set (nodes_table db). \<exists>p. parse_properties jp (n_properties row) = Inr p"
  shows "\<exists>s'. visit_name jp db g name s = Inr s'"
proof (cases "get_node db g name")
  case None
  then show ?thesis by (simp add: visit_name_def Let_def)
next
  case (Some nb)
  from get_node_Some[OF Some] assms obtain p where "parse_properties jp (n_properties nb) = Inr p"
    by blast
  with Some show ?thesis by (simp add: visit_name_def Let_def)
qed

lemma visit_rel_returns:
  assumes "\<forall>row\<in>set (nodes_table db). \<exists>p. parse_properties jp (n_properties row) = Inr p"
    and "\<exists>p. parse_properties jp (r_properties rel) = Inr p"
  shows "\<exists>s'. visit_rel jp db g rel s = Inr s'"
proof -
  from assms(2) obtain p where p: "parse_properties jp (r_properties rel) = Inr p" by blast
  from visit_name_returns[OF assms(1)] obtain s1 where
    s1: "visit_name jp db g (r_source rel) (s\<lparr>allRels := allRels s @ [(rel, p)]\<rparr>) = Inr s1" by blast
  from visit_name_returns[OF assms(1)] obtain s2 where
    s2: "visit_name jp db g (r_target rel) s1 = Inr s2" by blast
  from p s1 s2 show ?thesis by (simp add: visit_rel_def)
qed

lemma scan_rels_returns:
  assumes "\<forall>row\<in>set (nodes_table db). \<exists>p. parse_properties jp (n_properties row) = Inr p"
  shows "\<forall>rel\<in>set rels. \<exists>p. parse_properties jp (r_properties rel) = Inr p \<Longrightarrow>
         \<exists>s'. scan_rels jp db g rels s = Inr s'"
proof (induction rels arbitrary: s)
  case Nil
  then show ?case by simp
next
  case (Cons rel rels)
  from Cons.prems have "\<exists>p. parse_properties jp (r_properties rel) = Inr p" by simp
  from visit_rel_returns[OF assms this] obtain s1 where s1: "visit_rel jp db g rel s = Inr s1"
    by blast
  from Cons.prems have "\<forall>rel\<in>set rels. \<exists>p. parse_properties jp (r_properties rel) = Inr p" by simp
  from Cons.IH[OF this] obtain s2 where "scan_rels jp db g rels s1 = Inr s2" by blast
  with s1 show ?case by simp
qed

lemma expand_round_returns:
  assumes "\<forall>row\<in>set (nodes_table db). \<exists>p. parse_properties jp (n_properties row) = Inr p"
    and "\<forall>rel\<in>set (relationships_table db). \<exists>p. parse_properties jp (r_properties rel) = Inr p"
  shows "\<exists>s'. expand_round jp db g s = Inr s'"
proof -
  let ?rels = "outRels db g (frontier s) @ inRels db g (frontier s)"
  from assms(2) have "\<forall>rel\<in>set ?rels. \<exists>p. parse_properties jp (r_properties rel) = Inr p"
    by (auto simp: outRels_def inRels_def)
  from scan_rels_returns[OF assms(1) this] obtain s1 where
    "scan_rels jp db g ?rels (s\<lparr>nextFrontier := []\<rparr>) = Inr s1" by blast
  then show ?thesis by (simp add: expand_round_def Let_def)
qed

lemma rounds_returns:
  assumes "\<forall>row\<in>set (nodes_table db). \<exists>p. parse_properties jp (n_properties row) = Inr p"
    and "\<forall>rel\<in>set (relationships_table db). \<exists>p. parse_properties jp (r_properties rel) = Inr p"
  shows "\<exists>t. rounds jp db g k s = Inr t"
proof (induction k arbitrary: s)
  case 0
  show ?case by simp
next
  case (Suc k)
  from expand_round_returns[OF assms] obtain s1 where s1: "expand_round jp db g s = Inr s1" by blast
  from Suc obtain t where "rounds jp db g k s1 = Inr t" by blast
  with s1 show ?case by simp
qed

text \<open>
  When the \<^verbatim>\<open>properties\<close> of every row parse, the expansion from a name that decodes to the name
  of a node answers with a subgraph, for every depth parameter.
\<close>

lemma expand_returns:
  assumes "\<forall>row\<in>set (nodes_table db). \<exists>p. parse_properties jp (n_properties row) = Inr p"
    and "\<forall>rel\<in>set (relationships_table db). \<exists>p. parse_properties jp (r_properties rel) = Inr p"
    and "dec name = Some n" and "get_node db g n = Some row"
  shows "\<exists>r. expand dec jp db g name q = Inr r"
proof -
  from get_node_Some[OF assms(4)] assms(1) obtain p where
    p: "parse_properties jp (n_properties row) = Inr p" by blast
  from rounds_returns[OF assms(1,2)] obtain t where
    "rounds jp db g (nat (depth_of q))
       \<lparr>visited = [n], frontier = [n], nextFrontier = [], allNodes = [(row, p)], allRels = []\<rparr>
     = Inr t" by blast
  with assms(3,4) p show ?thesis by (simp add: expand_def traverse_def)
qed

subsection \<open>The claims about the expansion\<close>

text \<open>
  Claim C3. On a fixed store, a larger requested depth returns a superset of node names:
  whenever the expansion with the larger depth answers, the one with the smaller depth answers
  too, and every node name of the smaller answer is among those of the larger.
\<close>

theorem expand_nodes_monotone:
  assumes "d1 < d2" and "expand dec jp db g n (Some d2) = Inr r2"
  shows "\<exists>r1. expand dec jp db g n (Some d1) = Inr r1
           \<and> set (map (n_name \<circ> fst) (nodes r1)) \<subseteq> set (map (n_name \<circ> fst) (nodes r2))"
proof -
  from assms(2) obtain s2 where s2: "traverse dec jp db g n (Some d2) = Inr s2"
    and r2: "nodes r2 = allNodes s2"
    by (auto simp: expand_Inr)
  from s2 obtain m row p where m: "dec n = Some m" and row: "get_node db g m = Some row"
    and p: "parse_properties jp (n_properties row) = Inr p"
    and run: "rounds jp db g (nat (depth_of (Some d2)))
                \<lparr>visited = [m], frontier = [m], nextFrontier = [], allNodes = [(row, p)], allRels = []\<rparr>
              = Inr s2"
    by (rule traverse_Inr)
  from rounds_le_Inr[OF depth_of_mono[OF assms(1)] run]
  obtain s1 where s1: "rounds jp db g (nat (depth_of (Some d1)))
                \<lparr>visited = [m], frontier = [m], nextFrontier = [], allNodes = [(row, p)], allRels = []\<rparr>
              = Inr s1"
    and pre: "prefix (allNodes s1) (allNodes s2)" by blast
  from m row p s1 have "traverse dec jp db g n (Some d1) = Inr s1"
    by (simp add: traverse_def)
  then obtain r1 where r1: "expand dec jp db g n (Some d1) = Inr r1" "nodes r1 = allNodes s1"
    by (simp add: expand_def)
  from pre have "set (allNodes s1) \<subseteq> set (allNodes s2)" by (rule set_mono_prefix)
  with r1 r2 show ?thesis by auto
qed

theorem expand_nodes_monotone_witness:
  "(1::int) < 2
   \<and> expand decodeURIComponent_ascii parse_braces diamond ''g'' ''A'' (Some 2) = Inr diamond_depth2
   \<and> (\<exists>r1. expand decodeURIComponent_ascii parse_braces diamond ''g'' ''A'' (Some 1) = Inr r1
          \<and> set (map (n_name \<circ> fst) (nodes r1)) \<subseteq> set (map (n_name \<circ> fst) (nodes diamond_depth2)))"
proof -
  have less: "(1::int) < 2" by simp
  have h: "expand decodeURIComponent_ascii parse_braces diamond ''g'' ''A'' (Some 2)
           = Inr diamond_depth2" by code_simp
  from expand_nodes_monotone[OF less h] less h show ?thesis by simp
qed

subsection \<open>The deduplication\<close>

lemma uniqueRels_keys:
  "set (map rel_key (uniqueRels relSet rs)) = set (map rel_key rs) - set relSet"
  by (induction rs arbitrary: relSet) auto

lemma uniqueRels_distinct: "distinct (map rel_key (uniqueRels relSet rs))"
  by (induction rs arbitrary: relSet) (simp_all add: uniqueRels_keys del: set_map)


lemma count_list_distinct: "distinct xs \<Longrightarrow> x \<in> set xs \<Longrightarrow> count_list xs x = 1"
  by (induction xs) auto

lemma uniqueRels_once:
  assumes "e \<in> set rs"
  shows "count_list (map rel_key (uniqueRels [] rs)) (rel_key e) = 1"
proof -
  from assms have "rel_key e \<in> set (map rel_key rs)" by simp
  then have "rel_key e \<in> set (map rel_key (uniqueRels [] rs))"
    by (simp only: uniqueRels_keys) simp
  with uniqueRels_distinct show ?thesis by (rule count_list_distinct)
qed

text \<open>
  Claim C2. Whenever the traversal completes, the answer lists every collected edge identity
  exactly once, however often the traversal collected it. In the diamond, two rounds from A
  collect A\<rightarrow>B and A\<rightarrow>C twice (as outgoing edges of A, then as incoming edges of B and C), and
  the answer holds the four nodes and each of the four edges once.
\<close>

theorem expand_edges_once:
  "(traverse dec jp db g n q = Inr s \<longrightarrow>
      (\<exists>r. expand dec jp db g n q = Inr r
           \<and> distinct (map rel_key (relationships r))
           \<and> (\<forall>e\<in>set (allRels s). count_list (map rel_key (relationships r)) (rel_key e) = 1)))
   \<and> traverse decodeURIComponent_ascii parse_braces diamond ''g'' ''A'' (Some 2) = Inr diamond_round2
   \<and> expand decodeURIComponent_ascii parse_braces diamond ''g'' ''A'' (Some 2) = Inr diamond_depth2"
proof (intro conjI impI)
  assume s: "traverse dec jp db g n q = Inr s"
  let ?r = "\<lparr>node = (case allNodes s of [] \<Rightarrow> None | x # _ \<Rightarrow> Some x), nodes = allNodes s,
             relationships = uniqueRels [] (allRels s)\<rparr>"
  from s have "expand dec jp db g n q = Inr ?r" by (simp add: expand_def)
  moreover have "distinct (map rel_key (relationships ?r))" by (simp add: uniqueRels_distinct)
  moreover have "\<forall>e\<in>set (allRels s). count_list (map rel_key (relationships ?r)) (rel_key e) = 1"
    by (simp add: uniqueRels_once)
  ultimately show "\<exists>r. expand dec jp db g n q = Inr r
           \<and> distinct (map rel_key (relationships r))
           \<and> (\<forall>e\<in>set (allRels s). count_list (map rel_key (relationships r)) (rel_key e) = 1)"
    by (intro exI[of _ ?r] conjI)
next
  show "traverse decodeURIComponent_ascii parse_braces diamond ''g'' ''A'' (Some 2)
        = Inr diamond_round2" by code_simp
next
  show "expand decodeURIComponent_ascii parse_braces diamond ''g'' ''A'' (Some 2)
        = Inr diamond_depth2" by code_simp
qed

theorem expand_edges_once_witness:
  "traverse decodeURIComponent_ascii parse_braces triangle ''g'' ''A'' (Some 2) = Inr triangle_round2
   \<and> expand decodeURIComponent_ascii parse_braces triangle ''g'' ''A'' (Some 2) = Inr triangle_answer
   \<and> parsed (edge ''B'' ''C'') \<in> set (allRels triangle_round2)
   \<and> count_list (map rel_key (allRels triangle_round2)) (rel_key (parsed (edge ''B'' ''C''))) = 2
   \<and> count_list (map rel_key (relationships triangle_answer)) (rel_key (parsed (edge ''B'' ''C''))) = 1"
proof -
  have 1: "traverse decodeURIComponent_ascii parse_braces triangle ''g'' ''A'' (Some 2)
           = Inr triangle_round2" by code_simp
  have 2: "expand decodeURIComponent_ascii parse_braces triangle ''g'' ''A'' (Some 2)
           = Inr triangle_answer" by code_simp
  have 3: "parsed (edge ''B'' ''C'') \<in> set (allRels triangle_round2)" by code_simp
  have 4: "count_list (map rel_key (allRels triangle_round2)) (rel_key (parsed (edge ''B'' ''C''))) = 2"
    by code_simp
  from expand_edges_once[of decodeURIComponent_ascii parse_braces triangle "''g''" "''A''" "Some 2"
      triangle_round2] 1 2 3
  have "count_list (map rel_key (relationships triangle_answer)) (rel_key (parsed (edge ''B'' ''C''))) = 1"
    by auto
  with 1 2 3 4 show ?thesis by (intro conjI)
qed

subsection \<open>A name that names no node\<close>

text \<open>How the route answers when the name does not decode, and when the decoded name has
  no row.\<close>

lemma expand_decode_error:
  "dec name = None \<Longrightarrow> expand dec jp db g name q = Inl ServerError"
  by (simp add: expand_def traverse_def)

lemma expand_decoded_not_found:
  assumes "dec name = Some n"
    and "\<forall>row\<in>set (nodes_table db). \<not> (n_graph_id row = g \<and> n_name row = n)"
  shows "expand dec jp db g name q = Inl (NotFound ''Node not found'')"
proof -
  from assms(2) have "get_node db g n = None" by (simp add: get_node_None)
  with assms(1) show ?thesis by (simp add: expand_def traverse_def)
qed

text \<open>
  Claim C6. The route looks up the name after decoding it a second time, so a name with no
  node need not give 404. In the diamond no node is named \<^verbatim>\<open>%41\<close> or \<^verbatim>\<open>%\<close>; for the name
  \<^verbatim>\<open>%41\<close>, which decodes to A, the route answers with the subgraph of A, and for the name \<^verbatim>\<open>%\<close>,
  which does not decode, it answers 500.
\<close>

theorem expand_decodes_name_twice:
  "get_node diamond ''g'' ''%41'' = None
   \<and> expand decodeURIComponent_ascii parse_braces diamond ''g'' ''%41'' (Some 1) = Inr diamond_depth1
   \<and> get_node diamond ''g'' ''%'' = None
   \<and> expand decodeURIComponent_ascii parse_braces diamond ''g'' ''%'' (Some 1) = Inl ServerError"
  by (intro conjI) code_simp+

subsection \<open>The depth parameter\<close>

lemma expand_depth_zero_is_one: "expand dec jp db g n (Some 0) = expand dec jp db g n (Some 1)"
  by (cases "dec n") (simp_all add: expand_def traverse_def depth_of_def)

lemma expand_depth_missing_is_one: "expand dec jp db g n None = expand dec jp db g n (Some 1)"
  by (cases "dec n") (simp_all add: expand_def traverse_def depth_of_def)

lemma expand_depth_clamped:
  "3 < d \<Longrightarrow> expand dec jp db g n (Some d) = expand dec jp db g n (Some 3)"
  by (cases "dec n") (simp_all add: expand_def traverse_def depth_of_def)

lemma expand_negative_depth:
  assumes "d < 0" and "dec name = Some n" and "get_node db g n = Some row"
    and "parse_properties jp (n_properties row) = Inr p"
  shows "expand dec jp db g name (Some d)
         = Inr \<lparr>node = Some (row, p), nodes = [(row, p)], relationships = []\<rparr>"
  using assms by (simp add: expand_def traverse_def depth_of_def)

text \<open>
  Claim C1. A requested depth of 0 does not give the start node alone: \<^verbatim>\<open>0 || 1\<close> is 1, so
  the expansion runs one round. In the diamond, depth 0 from A answers A, B and C with the
  edges A\<rightarrow>B and A\<rightarrow>C, as depth 1 does, while a negative depth answers A alone.
\<close>

theorem expand_depth_zero_runs_a_round:
  "expand decodeURIComponent_ascii parse_braces diamond ''g'' ''A'' (Some 0) = Inr diamond_depth1
   \<and> expand decodeURIComponent_ascii parse_braces diamond ''g'' ''A'' (Some (- 1))
       = Inr \<lparr>node = Some (parsed (node_named ''A'')), nodes = [parsed (node_named ''A'')],
              relationships = []\<rparr>"
  by (rule conjI) code_simp+

subsection \<open>Edges are not filtered by their endpoints\<close>







section \<open>Properties of the renderer\<close>

subsection \<open>The links and the connection counts of render\<close>

text \<open>
  Claim C4. The guard \<^verbatim>\<open>if (src && tgt)\<close> does not exclude every edge with a missing endpoint:
  for the payload with the single node A and the relationship \<^verbatim>\<open>__proto__\<close>\<rightarrow>A, where no node is
  named \<^verbatim>\<open>__proto__\<close>, render returns and keeps a link whose source is the inherited member.
\<close>

theorem render_links_inherited_endpoint:
  "render initial (Some proto_payload) = Returns proto_view
   \<and> map g_name (this_nodes proto_view) = [''A'']
   \<and> this_links proto_view
       = [\<lparr>l_source = Inherited ''__proto__'', l_target = NodeRef 0, l_type = ''RELATES_TO''\<rparr>]"
  by (intro conjI) code_simp+

text \<open>
  Claim C5. With the same relationship and a second node whose name is the text
  \<^verbatim>\<open>undefined\<close>, render returns and that node (node 0) has one connection although no link has it as source or
  target: the only link runs from the inherited member to node 1 (A), and its source has no
  name, which counts under the key \<^verbatim>\<open>undefined\<close>.
\<close>

theorem render_connections_inherited_endpoint:
  "render initial (Some undefined_payload) = Returns undefined_view
   \<and> map (\<lambda>n. (g_name n, g_connections n)) (this_nodes undefined_view)
       = [(''undefined'', Some (Num 1)), (''A'', Some (Num 1))]
   \<and> this_links undefined_view
       = [\<lparr>l_source = Inherited ''__proto__'', l_target = NodeRef 1, l_type = ''RELATES_TO''\<rparr>]
   \<and> filter (\<lambda>l. l_source l = NodeRef 0 \<or> l_target l = NodeRef 0) (this_links undefined_view) = []"
  by (intro conjI) code_simp+

subsection \<open>render on payloads whose relationship ends name nodes\<close>

lemma process_nodes_nodes:
  "process_nodes raw ns cc nm = (ns', cc', nm') \<Longrightarrow> ns' = ns @ map make_node raw"
proof (induction raw arbitrary: ns cc nm)
  case Nil
  then show ?case by simp
next
  case (Cons n rest)
  from Cons.prems have "process_nodes rest (ns @ [make_node n])
      (count_set cc (g_name (make_node n)) (Num 0)) (nm(g_name (make_node n) \<mapsto> length ns))
    = (ns', cc', nm')"
    by (simp add: Let_def)
  from Cons.IH[OF this] show ?case by simp
qed

lemma process_nodes_nodeMap:
  "process_nodes raw ns cc nm = (ns', cc', nm') \<Longrightarrow>
   (\<forall>k i. nm k = Some i \<longrightarrow> i < length ns \<and> g_name (ns ! i) = k) \<Longrightarrow>
   (\<forall>n\<in>set ns. nm (g_name n) \<noteq> None) \<Longrightarrow>
   (\<forall>k i. nm' k = Some i \<longrightarrow> i < length ns' \<and> g_name (ns' ! i) = k)
   \<and> (\<forall>n\<in>set ns'. nm' (g_name n) \<noteq> None)"
proof (induction raw arbitrary: ns cc nm)
  case Nil
  then show ?case by simp
next
  case (Cons n rest)
  let ?node = "make_node n"
  let ?ns = "ns @ [?node]"
  let ?cc = "count_set cc (g_name ?node) (Num 0)"
  let ?nm = "nm(g_name ?node \<mapsto> length ns)"
  from Cons.prems(1) have run: "process_nodes rest ?ns ?cc ?nm = (ns', cc', nm')"
    by (simp add: Let_def)
  have inv1: "\<forall>k i. ?nm k = Some i \<longrightarrow> i < length ?ns \<and> g_name (?ns ! i) = k"
  proof (intro allI impI)
    fix k i assume a: "?nm k = Some i"
    show "i < length ?ns \<and> g_name (?ns ! i) = k"
    proof (cases "k = g_name ?node")
      case True
      with a have "i = length ns" by simp
      with True show ?thesis by simp
    next
      case False
      with a have "nm k = Some i" by simp
      with Cons.prems(2) have "i < length ns \<and> g_name (ns ! i) = k" by blast
      then show ?thesis by (simp add: nth_append)
    qed
  qed
  have inv2: "\<forall>m\<in>set ?ns. ?nm (g_name m) \<noteq> None"
    using Cons.prems(3) by auto
  from Cons.IH[OF run inv1 inv2] show ?case .
qed

lemma process_nodes_count:
  "process_nodes raw ns cc nm = (ns', cc', nm') \<Longrightarrow>
   (\<forall>n\<in>set ns. g_name n \<noteq> ''__proto__'' \<longrightarrow> cc (g_name n) = Some (Num 0)) \<Longrightarrow>
   (\<forall>n\<in>set ns'. g_name n \<noteq> ''__proto__'' \<longrightarrow> cc' (g_name n) = Some (Num 0))"
proof (induction raw arbitrary: ns cc nm)
  case Nil
  then show ?case by simp
next
  case (Cons n rest)
  let ?node = "make_node n"
  let ?ns = "ns @ [?node]"
  let ?cc = "count_set cc (g_name ?node) (Num 0)"
  let ?nm = "nm(g_name ?node \<mapsto> length ns)"
  from Cons.prems(1) have run: "process_nodes rest ?ns ?cc ?nm = (ns', cc', nm')"
    by (simp add: Let_def)
  have inv: "\<forall>m\<in>set ?ns. g_name m \<noteq> ''__proto__'' \<longrightarrow> ?cc (g_name m) = Some (Num 0)"
    using Cons.prems(2) by (auto simp: count_set_def)
  from Cons.IH[OF run inv] show ?case .
qed

lemma increment_same:
  assumes "k \<noteq> ''__proto__''" and "cc k = Some (Num c)"
  shows "increment cc k k = Some (Num (c + 1))"
  using assms by (simp add: increment_def count_get_def count_set_def)

lemma increment_other:
  assumes "a \<noteq> k"
  shows "increment cc a k = cc k"
  using assms by (simp add: increment_def count_set_def)

lemma increment_both:
  assumes "k \<noteq> ''__proto__''" and "cc k = Some (Num c)"
  shows "increment (increment cc a) b k
         = Some (Num (c + (if a = k then 1 else 0) + (if b = k then 1 else 0)))"
proof -
  have 1: "increment cc a k = Some (Num (c + (if a = k then 1 else 0)))"
    using assms increment_same[of k cc c] increment_other[of a k cc] by (cases "a = k") simp_all
  show ?thesis
    using assms(1) 1 increment_same[of k "increment cc a" "c + (if a = k then 1 else 0)"]
      increment_other[of b k "increment cc a"]
    by (cases "b = k") simp_all
qed

lemma ends_named_snoc:
  "ends_named ns (ls @ [l]) k
   = ends_named ns ls k
     + (if property_key (ref_name ns (l_source l)) = k then 1 else 0)
     + (if property_key (ref_name ns (l_target l)) = k then 1 else 0)"
  by (simp add: ends_named_def)

text \<open>The counter of a key other than \<^verbatim>\<open>__proto__\<close> follows the link ends of that name.\<close>

lemma process_links_count:
  "process_links ns nm rels ls cc = (ls', cc') \<Longrightarrow> k \<noteq> ''__proto__'' \<Longrightarrow>
   cc k = Some (Num (ends_named ns ls k)) \<Longrightarrow>
   cc' k = Some (Num (ends_named ns ls' k))"
proof (induction rels arbitrary: ls cc)
  case Nil
  then show ?case by simp
next
  case (Cons rel rels)
  show ?case
  proof (cases "nodeMap_get nm (raw_source rel)")
    case None
    with Cons.prems(1) have "process_links ns nm rels ls cc = (ls', cc')" by simp
    from Cons.IH[OF this Cons.prems(2,3)] show ?thesis .
  next
    case (Some src)
    show ?thesis
    proof (cases "nodeMap_get nm (raw_target rel)")
      case None
      with Some Cons.prems(1) have "process_links ns nm rels ls cc = (ls', cc')" by simp
      from Cons.IH[OF this Cons.prems(2,3)] show ?thesis .
    next
      case (Some tgt)
      let ?l = "\<lparr>l_source = src, l_target = tgt,
                 l_type = (case raw_rel_type rel of None \<Rightarrow> ''RELATES_TO''
                           | Some t \<Rightarrow> if t = [] then ''RELATES_TO'' else t)\<rparr>"
      let ?cc = "increment (increment cc (property_key (ref_name ns src)))
                   (property_key (ref_name ns tgt))"
      from \<open>nodeMap_get nm (raw_source rel) = Some src\<close> Some Cons.prems(1)
      have run: "process_links ns nm rels (ls @ [?l]) ?cc = (ls', cc')" by simp
      from increment_both[of k cc "ends_named ns ls k" "property_key (ref_name ns src)"
          "property_key (ref_name ns tgt)", OF Cons.prems(2,3)]
      have "?cc k = Some (Num (ends_named ns (ls @ [?l]) k))"
        by (simp add: ends_named_snoc)
      from Cons.IH[OF run Cons.prems(2) this] show ?thesis .
    qed
  qed
qed

text \<open>When every relationship end that finds no node is also no inherited key, every
  link end is a node.\<close>

lemma process_links_resolve:
  "process_links ns nm rels ls cc = (ls', cc') \<Longrightarrow>
   (\<forall>k i. nm k = Some i \<longrightarrow> i < length ns \<and> g_name (ns ! i) = k) \<Longrightarrow>
   (\<forall>rel\<in>set rels. (nm (raw_source rel) = None \<longrightarrow> raw_source rel \<notin> set object_prototype_keys)
                   \<and> (nm (raw_target rel) = None \<longrightarrow> raw_target rel \<notin> set object_prototype_keys)) \<Longrightarrow>
   (\<forall>l\<in>set ls. \<exists>i j. l_source l = NodeRef i \<and> i < length ns \<and> l_target l = NodeRef j \<and> j < length ns) \<Longrightarrow>
   (\<forall>l\<in>set ls'. \<exists>i j. l_source l = NodeRef i \<and> i < length ns \<and> l_target l = NodeRef j \<and> j < length ns)"
proof (induction rels arbitrary: ls cc)
  case Nil
  then show ?case by simp
next
  case (Cons rel rels)
  from Cons.prems(3) have rest: "\<forall>rel\<in>set rels.
      (nm (raw_source rel) = None \<longrightarrow> raw_source rel \<notin> set object_prototype_keys)
      \<and> (nm (raw_target rel) = None \<longrightarrow> raw_target rel \<notin> set object_prototype_keys)" by simp
  from Cons.prems(3) have here:
    "nm (raw_source rel) = None \<longrightarrow> raw_source rel \<notin> set object_prototype_keys"
    "nm (raw_target rel) = None \<longrightarrow> raw_target rel \<notin> set object_prototype_keys" by simp_all
  show ?case
  proof (cases "nodeMap_get nm (raw_source rel)")
    case None
    with Cons.prems(1) have "process_links ns nm rels ls cc = (ls', cc')" by simp
    from Cons.IH[OF this Cons.prems(2) rest Cons.prems(4)] show ?thesis .
  next
    case (Some src)
    note src = Some
    show ?thesis
    proof (cases "nodeMap_get nm (raw_target rel)")
      case None
      with src Cons.prems(1) have "process_links ns nm rels ls cc = (ls', cc')" by simp
      from Cons.IH[OF this Cons.prems(2) rest Cons.prems(4)] show ?thesis .
    next
      case (Some tgt)
      let ?l = "\<lparr>l_source = src, l_target = tgt,
                 l_type = (case raw_rel_type rel of None \<Rightarrow> ''RELATES_TO''
                           | Some t \<Rightarrow> if t = [] then ''RELATES_TO'' else t)\<rparr>"
      let ?cc = "increment (increment cc (property_key (ref_name ns src)))
                   (property_key (ref_name ns tgt))"
      from src Some Cons.prems(1)
      have run: "process_links ns nm rels (ls @ [?l]) ?cc = (ls', cc')" by simp
      from src here(1) obtain i where i: "src = NodeRef i" "nm (raw_source rel) = Some i"
        by (auto simp: nodeMap_get_def split: option.splits if_splits)
      from Some here(2) obtain j where j: "tgt = NodeRef j" "nm (raw_target rel) = Some j"
        by (auto simp: nodeMap_get_def split: option.splits if_splits)
      from i(2) j(2) Cons.prems(2) have "i < length ns" "j < length ns" by blast+
      with i(1) j(1) Cons.prems(4)
      have "\<forall>l\<in>set (ls @ [?l]). \<exists>i j. l_source l = NodeRef i \<and> i < length ns
                                       \<and> l_target l = NodeRef j \<and> j < length ns"
        by auto
      from Cons.IH[OF run Cons.prems(2) rest this] show ?thesis .
    qed
  qed
qed

text \<open>The names that \<^verbatim>\<open>nodeMap\<close> holds after the loop over the nodes are the names of the nodes.\<close>

lemma process_nodes_names:
  assumes "process_nodes raw [] Map.empty Map.empty = (ns, cc, nm)"
  shows "nm k \<noteq> None \<longleftrightarrow> k \<in> g_name ` make_node ` set raw"
proof -
  from process_nodes_nodes[OF assms] have ns: "ns = map make_node raw" by simp
  from process_nodes_nodeMap[OF assms]
  have inv: "\<forall>k i. nm k = Some i \<longrightarrow> i < length ns \<and> g_name (ns ! i) = k"
    and dom: "\<forall>n\<in>set ns. nm (g_name n) \<noteq> None" by simp_all
  show ?thesis
  proof
    assume "nm k \<noteq> None"
    then obtain i where "nm k = Some i" by auto
    with inv have "i < length ns" "g_name (ns ! i) = k" by blast+
    then have "k \<in> g_name ` set ns" by (metis imageI nth_mem)
    with ns show "k \<in> g_name ` make_node ` set raw" by simp
  next
    assume "k \<in> g_name ` make_node ` set raw"
    with ns have "k \<in> g_name ` set ns" by simp
    with dom show "nm k \<noteq> None" by auto
  qed
qed


text \<open>render on a payload with nodes, in terms of its two loops.\<close>

lemma render_unfold:
  assumes "this_svg r" and "p_nodes gd = Some raw"
    and "process_nodes raw [] Map.empty Map.empty = (ns, cc, nm)"
    and "(case p_relationships gd of None \<Rightarrow> ([], cc)
          | Some rels \<Rightarrow> process_links ns nm rels [] cc) = (ls, cc')"
  shows "render r (Some gd)
         = (if reads_node_field nm (case p_relationships gd of None \<Rightarrow> [] | Some rels \<Rightarrow> rels)
            then Not_modelled
            else if forceLink_throws ls
            then Throws Error
                   (r\<lparr>this_nodes := map (set_connections cc') ns, this_links := ls,
                      this_elements :=
                        Some \<lparr>nodeElements = replicate (length ns) \<lparr>highlighted = False, faded = False\<rparr>,
                              nodeLabels = replicate (length ns) False,
                              linkElements = replicate (length ls) False,
                              linkLabels = replicate (length ls) False\<rparr>\<rparr>)
            else Returns
                   (r\<lparr>this_nodes := map (set_connections cc') ns, this_links := ls,
                      this_elements :=
                        Some \<lparr>nodeElements = replicate (length ns) \<lparr>highlighted = False, faded = False\<rparr>,
                              nodeLabels = replicate (length ns) False,
                              linkElements = replicate (length ls) False,
                              linkLabels = replicate (length ls) False\<rparr>,
                      this_simulation :=
                        Some \<lparr>sim_chargeStrength = chargeStrength (length ns),
                              sim_linkDistance = linkDistance (length ns),
                              sim_alphaDecay = alphaDecay (length ns),
                              sim_initial_ticks = initial_ticks (length ns)\<rparr>\<rparr>))"
  using assms by (simp add: render_def Let_def)

text \<open>The view that render leaves when it returns or throws.\<close>

lemma render_result:
  assumes "this_svg r" and "p_nodes gd = Some raw"
    and out: "render r (Some gd) = Returns v \<or> render r (Some gd) = Throws e v"
  obtains ns cc nm ls cc' where
    "process_nodes raw [] Map.empty Map.empty = (ns, cc, nm)"
    and "(case p_relationships gd of None \<Rightarrow> ([], cc)
          | Some rels \<Rightarrow> process_links ns nm rels [] cc) = (ls, cc')"
    and "this_nodes v = map (set_connections cc') ns"
    and "this_links v = ls"
    and "this_elements v
         = Some \<lparr>nodeElements = replicate (length ns) \<lparr>highlighted = False, faded = False\<rparr>,
                 nodeLabels = replicate (length ns) False,
                 linkElements = replicate (length ls) False,
                 linkLabels = replicate (length ls) False\<rparr>"
proof -
  obtain ns cc nm where pn: "process_nodes raw [] Map.empty Map.empty = (ns, cc, nm)"
    by (cases "process_nodes raw [] Map.empty Map.empty") auto
  obtain ls cc' where pl: "(case p_relationships gd of None \<Rightarrow> ([], cc)
                            | Some rels \<Rightarrow> process_links ns nm rels [] cc) = (ls, cc')"
    by (cases "(case p_relationships gd of None \<Rightarrow> ([], cc)
                | Some rels \<Rightarrow> process_links ns nm rels [] cc)") auto
  note u = render_unfold[OF assms(1,2) pn pl]
  have "this_nodes v = map (set_connections cc') ns \<and> this_links v = ls
        \<and> this_elements v
            = Some \<lparr>nodeElements = replicate (length ns) \<lparr>highlighted = False, faded = False\<rparr>,
                    nodeLabels = replicate (length ns) False,
                    linkElements = replicate (length ls) False,
                    linkLabels = replicate (length ls) False\<rparr>"
  proof (cases "reads_node_field nm (case p_relationships gd of None \<Rightarrow> [] | Some rels \<Rightarrow> rels)")
    case True
    with u out show ?thesis by simp
  next
    case False
    note nf = False
    show ?thesis
    proof (cases "forceLink_throws ls")
      case True
      with nf u out show ?thesis by auto
    next
      case False
      with nf u out show ?thesis by auto
    qed
  qed
  with pn pl that show ?thesis by blast
qed

text \<open>After render the four selections are bound to the nodes and the links.\<close>

lemma render_elements_bound:
  assumes "this_svg r" and "p_nodes gd = Some raw" and "render r (Some gd) = Returns v"
  shows "\<exists>els. this_elements v = Some els
           \<and> length (nodeElements els) = length (this_nodes v)
           \<and> length (nodeLabels els) = length (this_nodes v)
           \<and> length (linkElements els) = length (this_links v)
           \<and> length (linkLabels els) = length (this_links v)"
proof -
  from assms(3) have "render r (Some gd) = Returns v \<or> render r (Some gd) = Throws Error v" ..
  with assms(1,2) obtain ns and cc :: "string \<rightharpoonup> count" and nm :: "string \<rightharpoonup> nat" and ls cc'
    where "this_nodes v = map (set_connections cc') ns"
    "this_links v = ls"
    "this_elements v
         = Some \<lparr>nodeElements = replicate (length ns) \<lparr>highlighted = False, faded = False\<rparr>,
                 nodeLabels = replicate (length ns) False,
                 linkElements = replicate (length ls) False,
                 linkLabels = replicate (length ls) False\<rparr>"
    by (rule render_result)
  then show ?thesis by simp
qed

lemma ref_name_set_connections: "ref_name (map (set_connections cc) ns) x = ref_name ns x"
  by (cases x) (simp_all add: ref_name_def set_connections_def)

lemma ends_named_set_connections:
  "ends_named (map (set_connections cc) ns) ls k = ends_named ns ls k"
  by (simp add: ends_named_def ref_name_set_connections)

text \<open>
  For every payload on which render returns, a node whose name is not \<^verbatim>\<open>__proto__\<close> has as
  \<^verbatim>\<open>connections\<close> the number of link ends that count under its name.
\<close>

lemma render_connections:
  assumes "this_svg r" and "p_nodes gd = Some raw" and "render r (Some gd) = Returns vw"
    and "v \<in> set (this_nodes vw)" and "g_name v \<noteq> ''__proto__''"
  shows "g_connections v = Some (Num (ends_named (this_nodes vw) (this_links vw) (g_name v)))"
proof -
  from assms(3) have "render r (Some gd) = Returns vw \<or> render r (Some gd) = Throws Error vw" ..
  with assms(1,2) obtain ns cc nm ls cc' where
    pn: "process_nodes raw [] Map.empty Map.empty = (ns, cc, nm)"
    and pl: "(case p_relationships gd of None \<Rightarrow> ([], cc)
              | Some rels \<Rightarrow> process_links ns nm rels [] cc) = (ls, cc')"
    and nodes: "this_nodes vw = map (set_connections cc') ns"
    and links: "this_links vw = ls"
    by (rule render_result)
  from assms(4) nodes obtain n where n: "n \<in> set ns" "v = set_connections cc' n" by auto
  then have name: "g_name v = g_name n" by (simp add: set_connections_def)
  from process_nodes_count[OF pn] n(1) assms(5) name
  have zero: "cc (g_name n) = Some (Num 0)" by simp
  have count: "cc' (g_name n) = Some (Num (ends_named ns ls (g_name n)))"
  proof (cases "p_relationships gd")
    case None
    with pl have "ls = []" "cc' = cc" by simp_all
    with zero show ?thesis by (simp add: ends_named_def)
  next
    case (Some rels)
    with pl have run: "process_links ns nm rels [] cc = (ls, cc')" by simp
    from zero have "cc (g_name n) = Some (Num (ends_named ns [] (g_name n)))"
      by (simp add: ends_named_def)
    with process_links_count[OF run] assms(5) name show ?thesis by simp
  qed
  then have "g_connections (set_connections cc' n) = Some (Num (ends_named ns ls (g_name n)))"
    by (simp add: set_connections_def count_get_def)
  with n(2) name nodes links show ?thesis by (simp add: ends_named_set_connections)
qed

text \<open>
  For a payload whose relationship ends are node names whenever they are inherited keys,
  both ends of every link are nodes of the view.
\<close>

lemma render_links_resolve:
  assumes "this_svg r" and "p_nodes gd = Some raw" and "p_relationships gd = Some rels"
    and plain: "\<forall>rel\<in>set rels.
        (raw_source rel \<in> set object_prototype_keys \<longrightarrow> raw_source rel \<in> g_name ` make_node ` set raw)
        \<and> (raw_target rel \<in> set object_prototype_keys \<longrightarrow> raw_target rel \<in> g_name ` make_node ` set raw)"
    and out: "render r (Some gd) = Returns v \<or> render r (Some gd) = Throws e v"
  shows "\<forall>l\<in>set (this_links v).
           \<exists>i j. l_source l = NodeRef i \<and> i < length (this_nodes v)
               \<and> l_target l = NodeRef j \<and> j < length (this_nodes v)"
proof -
  from assms(1,2) out obtain ns cc nm ls cc' where
    pn: "process_nodes raw [] Map.empty Map.empty = (ns, cc, nm)"
    and pl: "(case p_relationships gd of None \<Rightarrow> ([], cc)
              | Some rels \<Rightarrow> process_links ns nm rels [] cc) = (ls, cc')"
    and nodes: "this_nodes v = map (set_connections cc') ns"
    and links: "this_links v = ls"
    by (rule render_result)
  from pl assms(3) have run: "process_links ns nm rels [] cc = (ls, cc')" by simp
  from process_nodes_nodeMap[OF pn]
  have inv: "\<forall>k i. nm k = Some i \<longrightarrow> i < length ns \<and> g_name (ns ! i) = k" by simp
  have ends: "\<forall>rel\<in>set rels.
      (nm (raw_source rel) = None \<longrightarrow> raw_source rel \<notin> set object_prototype_keys)
      \<and> (nm (raw_target rel) = None \<longrightarrow> raw_target rel \<notin> set object_prototype_keys)"
  proof (intro ballI conjI impI)
    fix rel assume rel: "rel \<in> set rels" and none: "nm (raw_source rel) = None"
    from none process_nodes_names[OF pn, of "raw_source rel"]
    have "raw_source rel \<notin> g_name ` make_node ` set raw" by simp
    with plain rel show "raw_source rel \<notin> set object_prototype_keys" by blast
  next
    fix rel assume rel: "rel \<in> set rels" and none: "nm (raw_target rel) = None"
    from none process_nodes_names[OF pn, of "raw_target rel"]
    have "raw_target rel \<notin> g_name ` make_node ` set raw" by simp
    with plain rel show "raw_target rel \<notin> set object_prototype_keys" by blast
  qed
  from process_links_resolve[OF run inv ends]
  have "\<forall>l\<in>set ls. \<exists>i j. l_source l = NodeRef i \<and> i < length ns
                         \<and> l_target l = NodeRef j \<and> j < length ns" by simp
  with nodes links show ?thesis by simp
qed





subsection \<open>The layout parameters\<close>






subsection \<open>The minimap and zoomToFit on a layout without extent\<close>

lemma range_or_1_nonzero: "range_or_1 hi lo \<noteq> 0"
  by (simp add: range_or_1_def)

lemma zoomToFit_zero_extent:
  "bbox_width bounds = 0 \<or> bbox_height bounds = 0 \<Longrightarrow> zoomToFit r bounds = None"
  by (simp add: zoomToFit_def)

text \<open>
  Claim C8. With a single positioned node the bounds have no extent, both ranges become 1,
  the scale is 100, and the node is drawn at (30, 10) on the 160 by 120 canvas, wherever it
  lies in the layout: on the upper padding line, 50 pixels left of and 50 pixels above the
  centre (80, 60).
\<close>

theorem updateMinimap_single_node:
  "updateMinimap (r\<lparr>this_minimapCtx := True, this_links := [],
                     this_nodes := [n\<lparr>g_pos := Some (x, y)\<rparr>]\<rparr>)
   = Some \<lparr>drawn_lines = [], drawn_nodes = [(30, 10)]\<rparr>"
  by (simp add: updateMinimap_def range_or_1_def)

theorem updateMinimap_single_node_witness:
  "updateMinimap (initial\<lparr>this_minimapCtx := True, this_links := [],
       this_nodes := [(make_node (payload_node ''A''))\<lparr>g_pos := Some (400, 300)\<rparr>]\<rparr>)
   = Some \<lparr>drawn_lines = [], drawn_nodes = [(30, 10)]\<rparr>
   \<and> ((30, 10) :: real \<times> real) \<noteq> (160 / 2, 120 / 2)"
  using updateMinimap_single_node[where r = initial and n = "make_node (payload_node ''A'')"
      and x = 400 and y = 300]
  by simp

subsection \<open>highlightNodes\<close>

lemma link_faded_Inr:
  assumes "link_faded lc matches ns l = Inr b"
  shows "b = (\<not> (case ref_name ns (l_source l) of None \<Rightarrow> False | Some a \<Rightarrow> lc a \<in> set matches)
              \<and> \<not> (case ref_name ns (l_target l) of None \<Rightarrow> False | Some a \<Rightarrow> lc a \<in> set matches))"
  using assms by (auto simp: link_faded_def split: option.splits if_splits)

lemma link_faded_named:
  assumes "ref_name ns (l_source l) \<noteq> None" and "ref_name ns (l_target l) \<noteq> None"
  shows "\<exists>b. link_faded lc matches ns l = Inr b"
  using assms by (auto simp: link_faded_def split: option.splits)

lemma classed_faded_links_Inr:
  "classed_faded_links lc matches ns ls es = Inr bs \<Longrightarrow> length es = length ls \<Longrightarrow>
     length bs = length ls \<and> (\<forall>j<length ls. link_faded lc matches ns (ls ! j) = Inr (bs ! j))"
proof (induction lc matches ns ls es arbitrary: bs rule: classed_faded_links.induct)
  case (1 lc matches ns l ls e es)
  from "1.prems"(1) obtain b where b: "link_faded lc matches ns l = Inr b"
    by (cases "link_faded lc matches ns l") simp_all
  from "1.prems"(1) b obtain bs' where bs': "classed_faded_links lc matches ns ls es = Inr bs'"
    and bs: "bs = b # bs'"
    by (cases "classed_faded_links lc matches ns ls es") auto
  from "1.prems"(2) have len: "length es = length ls" by simp
  note ih = "1.IH"[OF b bs' len]
  show ?case
  proof (intro conjI allI impI)
    from ih bs show "length bs = length (l # ls)" by simp
  next
    fix j assume "j < length (l # ls)"
    with ih b bs show "link_faded lc matches ns ((l # ls) ! j) = Inr (bs ! j)"
      by (cases j) auto
  qed
qed simp_all

lemma classed_faded_links_named:
  "\<forall>l\<in>set ls. ref_name ns (l_source l) \<noteq> None \<and> ref_name ns (l_target l) \<noteq> None \<Longrightarrow>
     \<exists>bs. classed_faded_links lc matches ns ls es = Inr bs"
proof (induction lc matches ns ls es rule: classed_faded_links.induct)
  case (1 lc matches ns l ls e es)
  from "1.prems" obtain b where b: "link_faded lc matches ns l = Inr b"
    using link_faded_named[of ns l lc matches] by auto
  from "1.prems" have "\<forall>l\<in>set ls. ref_name ns (l_source l) \<noteq> None \<and> ref_name ns (l_target l) \<noteq> None"
    by simp
  from "1.IH"[OF b this] obtain bs where "classed_faded_links lc matches ns ls es = Inr bs" by blast
  with b show ?case by simp
qed simp_all

lemma clear_circles:
  "map (\<lambda>c. c\<lparr>highlighted := False, faded := False\<rparr>) (cs :: circle list)
   = replicate (length cs) \<lparr>highlighted = False, faded = False\<rparr>"
  by (induction cs) auto

lemma clear_flags: "map (\<lambda>c. False) (bs :: bool list) = replicate (length bs) False"
  by (induction bs) auto

text \<open>The view after \<^verbatim>\<open>highlightNodes([])\<close>.\<close>

lemma highlightNodes_clear:
  assumes "this_elements r = Some els"
  shows "highlightNodes lc [] r
         = Inr (r\<lparr>searchMatches := [], isSearchActive := False,
                  this_elements :=
                    Some \<lparr>nodeElements = replicate (length (nodeElements els))
                                           \<lparr>highlighted = False, faded = False\<rparr>,
                          nodeLabels = replicate (length (nodeLabels els)) False,
                          linkElements = replicate (length (linkElements els)) False,
                          linkLabels = replicate (length (linkLabels els)) False\<rparr>\<rparr>)"
  using assms by (simp add: highlightNodes_def clear_circles clear_flags)

text \<open>The view after a call with a non-empty list that returns.\<close>

lemma highlightNodes_active:
  assumes "names \<noteq> []" and "this_elements r = Some els" and "highlightNodes lc names r = Inr r1"
  shows "\<exists>lines lineLabels.
           classed_faded_links lc (map lc names) (this_nodes r) (this_links r) (linkElements els)
             = Inr lines
         \<and> classed_faded_links lc (map lc names) (this_nodes r) (this_links r) (linkLabels els)
             = Inr lineLabels
         \<and> r1 = r\<lparr>searchMatches := map lc names, isSearchActive := True,
                   this_elements :=
                     Some \<lparr>nodeElements =
                             map (\<lambda>(n, c). c\<lparr>highlighted := lc (g_name n) \<in> set (map lc names),
                                              faded := lc (g_name n) \<notin> set (map lc names)\<rparr>)
                                 (zip (this_nodes r) (nodeElements els)),
                           nodeLabels =
                             map (\<lambda>(n, c). lc (g_name n) \<notin> set (map lc names))
                                 (zip (this_nodes r) (nodeLabels els)),
                           linkElements = lines, linkLabels = lineLabels\<rparr>\<rparr>"
proof -
  let ?A = "classed_faded_links lc (map lc names) (this_nodes r) (this_links r) (linkElements els)"
  let ?B = "classed_faded_links lc (map lc names) (this_nodes r) (this_links r) (linkLabels els)"
  from assms obtain lines where lines: "?A = Inr lines"
    by (cases ?A) (simp_all add: highlightNodes_def Let_def)
  from assms lines obtain lineLabels where lineLabels: "?B = Inr lineLabels"
    by (cases ?B) (simp_all add: highlightNodes_def Let_def)
  from assms lines lineLabels show ?thesis
    by (simp add: highlightNodes_def Let_def)
qed

lemma link_faded_end_matches:
  assumes "link_faded lc (map lc names) ns l = Inr b"
  shows "b = (\<not> end_matches lc names ns (l_source l) \<and> \<not> end_matches lc names ns (l_target l))"
  using link_faded_Inr[OF assms] by (auto simp: end_matches_def split: option.splits)

lemma highlightNodes_returns:
  assumes "\<forall>l\<in>set (this_links r). ref_name (this_nodes r) (l_source l) \<noteq> None
                                   \<and> ref_name (this_nodes r) (l_target l) \<noteq> None"
  shows "\<exists>r1. highlightNodes lc names r = Inr r1"
proof (cases "this_elements r")
  case None
  then show ?thesis by (simp add: highlightNodes_def)
next
  case (Some els)
  show ?thesis
  proof (cases "names = []")
    case True
    with highlightNodes_clear[OF Some, of lc] show ?thesis by simp
  next
    case False
    from classed_faded_links_named[OF assms, of lc "map lc names" "linkElements els"]
    obtain lines where lines:
      "classed_faded_links lc (map lc names) (this_nodes r) (this_links r) (linkElements els) = Inr lines"
      by blast
    from classed_faded_links_named[OF assms, of lc "map lc names" "linkLabels els"]
    obtain lineLabels where lineLabels:
      "classed_faded_links lc (map lc names) (this_nodes r) (this_links r) (linkLabels els) = Inr lineLabels"
      by blast
    from False Some lines lineLabels show ?thesis by (simp add: highlightNodes_def Let_def)
  qed
qed

text \<open>
  Claim C9, amended. Names are compared in lower case. For a view whose selections are bound
  to its nodes and links: a call with a non-empty list that returns marks a node highlighted
  exactly when its lower-cased name is among the lower-cased names of the list, and faded (the
  circle and its label) otherwise; a line and its label are faded exactly when neither end
  matches. The call returns whenever every link end has a name. A call with the empty list
  returns, leaves no circle highlighted or faded and no label or line faded, is idempotent,
  and gives the same view after any call that returned as it gives before it.
\<close>

theorem highlightNodes_partition:
  assumes els: "this_elements r = Some els"
    and bound: "length (nodeElements els) = length (this_nodes r)"
      "length (nodeLabels els) = length (this_nodes r)"
      "length (linkElements els) = length (this_links r)"
      "length (linkLabels els) = length (this_links r)"
  shows
    "(names \<noteq> [] \<and> highlightNodes lc names r = Inr r1 \<longrightarrow>
        (\<exists>els1. this_elements r1 = Some els1
           \<and> (\<forall>i<length (this_nodes r).
                 highlighted (nodeElements els1 ! i) = (lc (g_name (this_nodes r ! i)) \<in> lc ` set names)
               \<and> faded (nodeElements els1 ! i) = (lc (g_name (this_nodes r ! i)) \<notin> lc ` set names)
               \<and> nodeLabels els1 ! i = (lc (g_name (this_nodes r ! i)) \<notin> lc ` set names))
           \<and> (\<forall>j<length (this_links r).
                 linkElements els1 ! j
                   = (\<not> end_matches lc names (this_nodes r) (l_source (this_links r ! j))
                      \<and> \<not> end_matches lc names (this_nodes r) (l_target (this_links r ! j)))
               \<and> linkLabels els1 ! j
                   = (\<not> end_matches lc names (this_nodes r) (l_source (this_links r ! j))
                      \<and> \<not> end_matches lc names (this_nodes r) (l_target (this_links r ! j))))))
     \<and> ((\<forall>l\<in>set (this_links r). ref_name (this_nodes r) (l_source l) \<noteq> None
                                   \<and> ref_name (this_nodes r) (l_target l) \<noteq> None)
          \<longrightarrow> (\<exists>r1. highlightNodes lc names r = Inr r1))
     \<and> (\<exists>r0 els0. highlightNodes lc [] r = Inr r0 \<and> this_elements r0 = Some els0
           \<and> (\<forall>c\<in>set (nodeElements els0). \<not> highlighted c \<and> \<not> faded c)
           \<and> (\<forall>b\<in>set (nodeLabels els0 @ linkElements els0 @ linkLabels els0). \<not> b)
           \<and> length (nodeElements els0) = length (this_nodes r)
           \<and> length (nodeLabels els0) = length (this_nodes r)
           \<and> length (linkElements els0) = length (this_links r)
           \<and> length (linkLabels els0) = length (this_links r)
           \<and> highlightNodes lc [] r0 = Inr r0
           \<and> (highlightNodes lc names r = Inr r1 \<longrightarrow> highlightNodes lc [] r1 = Inr r0))"
proof (intro conjI)
  show "names \<noteq> [] \<and> highlightNodes lc names r = Inr r1 \<longrightarrow>
        (\<exists>els1. this_elements r1 = Some els1
           \<and> (\<forall>i<length (this_nodes r).
                 highlighted (nodeElements els1 ! i) = (lc (g_name (this_nodes r ! i)) \<in> lc ` set names)
               \<and> faded (nodeElements els1 ! i) = (lc (g_name (this_nodes r ! i)) \<notin> lc ` set names)
               \<and> nodeLabels els1 ! i = (lc (g_name (this_nodes r ! i)) \<notin> lc ` set names))
           \<and> (\<forall>j<length (this_links r).
                 linkElements els1 ! j
                   = (\<not> end_matches lc names (this_nodes r) (l_source (this_links r ! j))
                      \<and> \<not> end_matches lc names (this_nodes r) (l_target (this_links r ! j)))
               \<and> linkLabels els1 ! j
                   = (\<not> end_matches lc names (this_nodes r) (l_source (this_links r ! j))
                      \<and> \<not> end_matches lc names (this_nodes r) (l_target (this_links r ! j)))))"
  proof
    assume a: "names \<noteq> [] \<and> highlightNodes lc names r = Inr r1"
    from highlightNodes_active[OF a[THEN conjunct1] els a[THEN conjunct2]]
    obtain lines lineLabels where
      lines: "classed_faded_links lc (map lc names) (this_nodes r) (this_links r) (linkElements els)
                = Inr lines"
      and lineLabels: "classed_faded_links lc (map lc names) (this_nodes r) (this_links r) (linkLabels els)
                = Inr lineLabels"
      and r1: "r1 = r\<lparr>searchMatches := map lc names, isSearchActive := True,
                   this_elements :=
                     Some \<lparr>nodeElements =
                             map (\<lambda>(n, c). c\<lparr>highlighted := lc (g_name n) \<in> set (map lc names),
                                              faded := lc (g_name n) \<notin> set (map lc names)\<rparr>)
                                 (zip (this_nodes r) (nodeElements els)),
                           nodeLabels =
                             map (\<lambda>(n, c). lc (g_name n) \<notin> set (map lc names))
                                 (zip (this_nodes r) (nodeLabels els)),
                           linkElements = lines, linkLabels = lineLabels\<rparr>\<rparr>"
      by blast
    let ?els1 = "\<lparr>nodeElements =
                             map (\<lambda>(n, c). c\<lparr>highlighted := lc (g_name n) \<in> set (map lc names),
                                              faded := lc (g_name n) \<notin> set (map lc names)\<rparr>)
                                 (zip (this_nodes r) (nodeElements els)),
                           nodeLabels =
                             map (\<lambda>(n, c). lc (g_name n) \<notin> set (map lc names))
                                 (zip (this_nodes r) (nodeLabels els)),
                           linkElements = lines, linkLabels = lineLabels\<rparr>"
    from r1 have e1: "this_elements r1 = Some ?els1" by simp
    have nodes_part: "\<forall>i<length (this_nodes r).
                 highlighted (nodeElements ?els1 ! i) = (lc (g_name (this_nodes r ! i)) \<in> lc ` set names)
               \<and> faded (nodeElements ?els1 ! i) = (lc (g_name (this_nodes r ! i)) \<notin> lc ` set names)
               \<and> nodeLabels ?els1 ! i = (lc (g_name (this_nodes r ! i)) \<notin> lc ` set names)"
      using bound(1,2) by simp
    note A = classed_faded_links_Inr[OF lines bound(3)]
    note B = classed_faded_links_Inr[OF lineLabels bound(4)]
    have links_part: "\<forall>j<length (this_links r).
                 linkElements ?els1 ! j
                   = (\<not> end_matches lc names (this_nodes r) (l_source (this_links r ! j))
                      \<and> \<not> end_matches lc names (this_nodes r) (l_target (this_links r ! j)))
               \<and> linkLabels ?els1 ! j
                   = (\<not> end_matches lc names (this_nodes r) (l_source (this_links r ! j))
                      \<and> \<not> end_matches lc names (this_nodes r) (l_target (this_links r ! j)))"
    proof (intro allI impI)
      fix j assume j: "j < length (this_links r)"
      from A j have "link_faded lc (map lc names) (this_nodes r) (this_links r ! j) = Inr (lines ! j)"
        by simp
      from link_faded_end_matches[OF this]
      have 1: "lines ! j = (\<not> end_matches lc names (this_nodes r) (l_source (this_links r ! j))
                      \<and> \<not> end_matches lc names (this_nodes r) (l_target (this_links r ! j)))" .
      from B j have "link_faded lc (map lc names) (this_nodes r) (this_links r ! j) = Inr (lineLabels ! j)"
        by simp
      from link_faded_end_matches[OF this]
      have 2: "lineLabels ! j = (\<not> end_matches lc names (this_nodes r) (l_source (this_links r ! j))
                      \<and> \<not> end_matches lc names (this_nodes r) (l_target (this_links r ! j)))" .
      from 1 2 show "linkElements ?els1 ! j
                   = (\<not> end_matches lc names (this_nodes r) (l_source (this_links r ! j))
                      \<and> \<not> end_matches lc names (this_nodes r) (l_target (this_links r ! j)))
               \<and> linkLabels ?els1 ! j
                   = (\<not> end_matches lc names (this_nodes r) (l_source (this_links r ! j))
                      \<and> \<not> end_matches lc names (this_nodes r) (l_target (this_links r ! j)))"
        by simp
    qed
    from e1 nodes_part links_part
    show "\<exists>els1. this_elements r1 = Some els1
           \<and> (\<forall>i<length (this_nodes r).
                 highlighted (nodeElements els1 ! i) = (lc (g_name (this_nodes r ! i)) \<in> lc ` set names)
               \<and> faded (nodeElements els1 ! i) = (lc (g_name (this_nodes r ! i)) \<notin> lc ` set names)
               \<and> nodeLabels els1 ! i = (lc (g_name (this_nodes r ! i)) \<notin> lc ` set names))
           \<and> (\<forall>j<length (this_links r).
                 linkElements els1 ! j
                   = (\<not> end_matches lc names (this_nodes r) (l_source (this_links r ! j))
                      \<and> \<not> end_matches lc names (this_nodes r) (l_target (this_links r ! j)))
               \<and> linkLabels els1 ! j
                   = (\<not> end_matches lc names (this_nodes r) (l_source (this_links r ! j))
                      \<and> \<not> end_matches lc names (this_nodes r) (l_target (this_links r ! j))))"
      by (intro exI[of _ ?els1] conjI)
  qed
next
  show "(\<forall>l\<in>set (this_links r). ref_name (this_nodes r) (l_source l) \<noteq> None
                                   \<and> ref_name (this_nodes r) (l_target l) \<noteq> None)
          \<longrightarrow> (\<exists>r1. highlightNodes lc names r = Inr r1)"
    by (intro impI highlightNodes_returns)
next
  let ?els0 = "\<lparr>nodeElements = replicate (length (nodeElements els))
                                           \<lparr>highlighted = False, faded = False\<rparr>,
                          nodeLabels = replicate (length (nodeLabels els)) False,
                          linkElements = replicate (length (linkElements els)) False,
                          linkLabels = replicate (length (linkLabels els)) False\<rparr>"
  let ?r0 = "r\<lparr>searchMatches := [], isSearchActive := False, this_elements := Some ?els0\<rparr>"
  have c0: "highlightNodes lc [] r = Inr ?r0" by (rule highlightNodes_clear[OF els])
  have e0: "this_elements ?r0 = Some ?els0" by simp
  have idem: "highlightNodes lc [] ?r0 = Inr ?r0"
    using highlightNodes_clear[OF e0, of lc] by simp
  have restore: "highlightNodes lc names r = Inr r1 \<longrightarrow> highlightNodes lc [] r1 = Inr ?r0"
  proof
    assume h: "highlightNodes lc names r = Inr r1"
    show "highlightNodes lc [] r1 = Inr ?r0"
    proof (cases "names = []")
      case True
      with h c0 idem show ?thesis by simp
    next
      case False
      from highlightNodes_active[OF False els h]
      obtain lines lineLabels where
        lines: "classed_faded_links lc (map lc names) (this_nodes r) (this_links r) (linkElements els)
                = Inr lines"
        and lineLabels: "classed_faded_links lc (map lc names) (this_nodes r) (this_links r) (linkLabels els)
                = Inr lineLabels"
        and r1: "r1 = r\<lparr>searchMatches := map lc names, isSearchActive := True,
                   this_elements :=
                     Some \<lparr>nodeElements =
                             map (\<lambda>(n, c). c\<lparr>highlighted := lc (g_name n) \<in> set (map lc names),
                                              faded := lc (g_name n) \<notin> set (map lc names)\<rparr>)
                                 (zip (this_nodes r) (nodeElements els)),
                           nodeLabels =
                             map (\<lambda>(n, c). lc (g_name n) \<notin> set (map lc names))
                                 (zip (this_nodes r) (nodeLabels els)),
                           linkElements = lines, linkLabels = lineLabels\<rparr>\<rparr>"
        by blast
      from classed_faded_links_Inr[OF lines bound(3)] bound(3)
      have l1: "length lines = length (linkElements els)" by simp
      from classed_faded_links_Inr[OF lineLabels bound(4)] bound(4)
      have l2: "length lineLabels = length (linkLabels els)" by simp
      let ?els1 = "\<lparr>nodeElements =
                             map (\<lambda>(n, c). c\<lparr>highlighted := lc (g_name n) \<in> set (map lc names),
                                              faded := lc (g_name n) \<notin> set (map lc names)\<rparr>)
                                 (zip (this_nodes r) (nodeElements els)),
                           nodeLabels =
                             map (\<lambda>(n, c). lc (g_name n) \<notin> set (map lc names))
                                 (zip (this_nodes r) (nodeLabels els)),
                           linkElements = lines, linkLabels = lineLabels\<rparr>"
      from r1 have e1: "this_elements r1 = Some ?els1" by simp
      from highlightNodes_clear[OF e1, of lc] r1 l1 l2 bound show ?thesis by simp
    qed
  qed
  from c0 e0 idem restore bound
  show "\<exists>r0 els0. highlightNodes lc [] r = Inr r0 \<and> this_elements r0 = Some els0
           \<and> (\<forall>c\<in>set (nodeElements els0). \<not> highlighted c \<and> \<not> faded c)
           \<and> (\<forall>b\<in>set (nodeLabels els0 @ linkElements els0 @ linkLabels els0). \<not> b)
           \<and> length (nodeElements els0) = length (this_nodes r)
           \<and> length (nodeLabels els0) = length (this_nodes r)
           \<and> length (linkElements els0) = length (this_links r)
           \<and> length (linkLabels els0) = length (this_links r)
           \<and> highlightNodes lc [] r0 = Inr r0
           \<and> (highlightNodes lc names r = Inr r1 \<longrightarrow> highlightNodes lc [] r1 = Inr r0)"
    by (intro exI[of _ ?r0] exI[of _ ?els0] conjI) auto
qed

theorem highlightNodes_partition_witness:
  "render initial (Some strategy_payload) = Returns strategy_view
   \<and> this_elements strategy_view = Some strategy_elements
   \<and> length (nodeElements strategy_elements) = length (this_nodes strategy_view)
   \<and> length (nodeLabels strategy_elements) = length (this_nodes strategy_view)
   \<and> length (linkElements strategy_elements) = length (this_links strategy_view)
   \<and> length (linkLabels strategy_elements) = length (this_links strategy_view)
   \<and> map g_name (this_nodes strategy_view) = [''Strategy1'', ''Strategy2'', ''Belief1'']
   \<and> (\<exists>r1 els1.
         highlightNodes toLowerCase_ascii [''Strategy1'', ''Strategy2''] strategy_view = Inr r1
         \<and> this_elements r1 = Some els1
         \<and> highlighted (nodeElements els1 ! 0) \<and> \<not> faded (nodeElements els1 ! 0)
         \<and> highlighted (nodeElements els1 ! 1) \<and> \<not> faded (nodeElements els1 ! 1)
         \<and> \<not> highlighted (nodeElements els1 ! 2) \<and> faded (nodeElements els1 ! 2)
         \<and> nodeLabels els1 ! 2
         \<and> \<not> linkElements els1 ! 0 \<and> \<not> linkElements els1 ! 1 \<and> linkElements els1 ! 2
         \<and> linkLabels els1 ! 2
         \<and> highlightNodes toLowerCase_ascii [] r1 = highlightNodes toLowerCase_ascii [] strategy_view)"
proof -
  let ?lc = toLowerCase_ascii
  let ?names = "[''Strategy1'', ''Strategy2'']"
  let ?r = strategy_view
  have ret: "render initial (Some strategy_payload) = Returns strategy_view" by code_simp
  have e: "this_elements ?r = Some strategy_elements" by code_simp
  have b1: "length (nodeElements strategy_elements) = length (this_nodes ?r)" by code_simp
  have b2: "length (nodeLabels strategy_elements) = length (this_nodes ?r)" by code_simp
  have b3: "length (linkElements strategy_elements) = length (this_links ?r)" by code_simp
  have b4: "length (linkLabels strategy_elements) = length (this_links ?r)" by code_simp
  have nm: "map g_name (this_nodes ?r) = [''Strategy1'', ''Strategy2'', ''Belief1'']" by code_simp
  have named: "\<forall>l\<in>set (this_links ?r). ref_name (this_nodes ?r) (l_source l) \<noteq> None
                                   \<and> ref_name (this_nodes ?r) (l_target l) \<noteq> None"
    by code_simp
  note t = highlightNodes_partition[OF e b1 b2 b3 b4, of ?names ?lc]
  note t2 = t[THEN conjunct2, THEN conjunct1]
  from t2[THEN mp, OF named] obtain r1 where r1: "highlightNodes ?lc ?names ?r = Inr r1" ..
  have ne: "?names \<noteq> []" by simp
  note t1 = t[of r1, THEN conjunct1, THEN mp, OF conjI[OF ne r1]]
  note t3 = t[of r1, THEN conjunct2, THEN conjunct2]
  from t1 obtain els1 where a: "this_elements r1 = Some els1
           \<and> (\<forall>i<length (this_nodes ?r).
                 highlighted (nodeElements els1 ! i) = (?lc (g_name (this_nodes ?r ! i)) \<in> ?lc ` set ?names)
               \<and> faded (nodeElements els1 ! i) = (?lc (g_name (this_nodes ?r ! i)) \<notin> ?lc ` set ?names)
               \<and> nodeLabels els1 ! i = (?lc (g_name (this_nodes ?r ! i)) \<notin> ?lc ` set ?names))
           \<and> (\<forall>j<length (this_links ?r).
                 linkElements els1 ! j
                   = (\<not> end_matches ?lc ?names (this_nodes ?r) (l_source (this_links ?r ! j))
                      \<and> \<not> end_matches ?lc ?names (this_nodes ?r) (l_target (this_links ?r ! j)))
               \<and> linkLabels els1 ! j
                   = (\<not> end_matches ?lc ?names (this_nodes ?r) (l_source (this_links ?r ! j))
                      \<and> \<not> end_matches ?lc ?names (this_nodes ?r) (l_target (this_links ?r ! j))))" ..
  note e1 = a[THEN conjunct1]
  note ns = a[THEN conjunct2, THEN conjunct1]
  note ls = a[THEN conjunct2, THEN conjunct2]
  from t3 obtain r0 els0 where c: "highlightNodes ?lc [] ?r = Inr r0 \<and> this_elements r0 = Some els0
           \<and> (\<forall>c\<in>set (nodeElements els0). \<not> highlighted c \<and> \<not> faded c)
           \<and> (\<forall>b\<in>set (nodeLabels els0 @ linkElements els0 @ linkLabels els0). \<not> b)
           \<and> length (nodeElements els0) = length (this_nodes ?r)
           \<and> length (nodeLabels els0) = length (this_nodes ?r)
           \<and> length (linkElements els0) = length (this_links ?r)
           \<and> length (linkLabels els0) = length (this_links ?r)
           \<and> highlightNodes ?lc [] r0 = Inr r0
           \<and> (highlightNodes ?lc ?names ?r = Inr r1 \<longrightarrow> highlightNodes ?lc [] r1 = Inr r0)"
    by (elim exE)
  note c1 = c[THEN conjunct1]
  note c9 = c[THEN conjunct2, THEN conjunct2, THEN conjunct2, THEN conjunct2, THEN conjunct2,
              THEN conjunct2, THEN conjunct2, THEN conjunct2, THEN conjunct2, THEN mp, OF r1]
  from c1 c9 have restored: "highlightNodes ?lc [] r1 = highlightNodes ?lc [] ?r" by simp
  have len: "length (this_nodes ?r) = 3" "length (this_links ?r) = 3" by code_simp+
  have m0: "?lc (g_name (this_nodes ?r ! 0)) \<in> ?lc ` set ?names" by code_simp
  have m1: "?lc (g_name (this_nodes ?r ! 1)) \<in> ?lc ` set ?names" by code_simp
  have m2: "?lc (g_name (this_nodes ?r ! 2)) \<notin> ?lc ` set ?names" by code_simp
  have k0: "end_matches ?lc ?names (this_nodes ?r) (l_source (this_links ?r ! 0))" by code_simp
  have k1: "end_matches ?lc ?names (this_nodes ?r) (l_source (this_links ?r ! 1))" by code_simp
  have k2: "\<not> end_matches ?lc ?names (this_nodes ?r) (l_source (this_links ?r ! 2))
            \<and> \<not> end_matches ?lc ?names (this_nodes ?r) (l_target (this_links ?r ! 2))" by code_simp
  have i0: "0 < length (this_nodes ?r)" and i1: "1 < length (this_nodes ?r)"
    and i2: "2 < length (this_nodes ?r)" using len by simp_all
  have j0: "0 < length (this_links ?r)" and j1: "1 < length (this_links ?r)"
    and j2: "2 < length (this_links ?r)" using len by simp_all
  from ns[rule_format, OF i0] m0
  have n0: "highlighted (nodeElements els1 ! 0) \<and> \<not> faded (nodeElements els1 ! 0)" by simp
  from ns[rule_format, OF i1] m1
  have n1: "highlighted (nodeElements els1 ! 1) \<and> \<not> faded (nodeElements els1 ! 1)" by simp
  from ns[rule_format, OF i2] m2
  have n2: "\<not> highlighted (nodeElements els1 ! 2) \<and> faded (nodeElements els1 ! 2)
            \<and> nodeLabels els1 ! 2" by simp
  from ls[rule_format, OF j0] k0 have l0: "\<not> linkElements els1 ! 0" by simp
  from ls[rule_format, OF j1] k1 have l1: "\<not> linkElements els1 ! 1" by simp
  from ls[rule_format, OF j2] k2 have l2: "linkElements els1 ! 2 \<and> linkLabels els1 ! 2" by simp
  from r1 e1 n0 n1 n2 l0 l1 l2 restored
  have "\<exists>r1 els1.
         highlightNodes ?lc ?names ?r = Inr r1
         \<and> this_elements r1 = Some els1
         \<and> highlighted (nodeElements els1 ! 0) \<and> \<not> faded (nodeElements els1 ! 0)
         \<and> highlighted (nodeElements els1 ! 1) \<and> \<not> faded (nodeElements els1 ! 1)
         \<and> \<not> highlighted (nodeElements els1 ! 2) \<and> faded (nodeElements els1 ! 2)
         \<and> nodeLabels els1 ! 2
         \<and> \<not> linkElements els1 ! 0 \<and> \<not> linkElements els1 ! 1 \<and> linkElements els1 ! 2
         \<and> linkLabels els1 ! 2
         \<and> highlightNodes ?lc [] r1 = highlightNodes ?lc [] ?r"
    by (intro exI[of _ r1] exI[of _ els1]) simp
  with ret e b1 b2 b3 b4 nm show ?thesis by (intro conjI)
qed

theorem highlightNodes_case_counterexample:
  "render initial (Some single_payload) = Returns single_view
   \<and> map g_name (this_nodes single_view) = [''A'']
   \<and> ''A'' \<notin> set [''a'']
   \<and> map_sum id this_elements (highlightNodes toLowerCase_ascii [''a''] single_view)
       = Inr (Some \<lparr>nodeElements = [\<lparr>highlighted = True, faded = False\<rparr>], nodeLabels = [False],
                    linkElements = [], linkLabels = []\<rparr>)"
  by (intro conjI) code_simp+

text \<open>On the view of a payload whose relationship ends are node names whenever they are
  inherited keys, every link end has a name, so highlightNodes returns.\<close>

lemma highlightNodes_returns_after_render:
  assumes "this_svg r" and "p_nodes gd = Some raw" and "p_relationships gd = Some rels"
    and "\<forall>rel\<in>set rels.
        (raw_source rel \<in> set object_prototype_keys \<longrightarrow> raw_source rel \<in> g_name ` make_node ` set raw)
        \<and> (raw_target rel \<in> set object_prototype_keys \<longrightarrow> raw_target rel \<in> g_name ` make_node ` set raw)"
    and "render r (Some gd) = Returns v"
  shows "\<exists>r1. highlightNodes lc names v = Inr r1"
proof (rule highlightNodes_returns, intro ballI)
  fix l assume l: "l \<in> set (this_links v)"
  from assms(5) have "render r (Some gd) = Returns v \<or> render r (Some gd) = Throws Error v" ..
  from render_links_resolve[OF assms(1-4) this] l obtain i j where
    "l_source l = NodeRef i" "i < length (this_nodes v)"
    "l_target l = NodeRef j" "j < length (this_nodes v)" by blast
  then show "ref_name (this_nodes v) (l_source l) \<noteq> None
             \<and> ref_name (this_nodes v) (l_target l) \<noteq> None"
    by (simp add: ref_name_def)
qed

section \<open>Dangling edges, from the store to the view\<close>



end
